theory Spec2Isabelle
  imports Main "HOL-Library.Multiset" "HOL-Library.Char_ord" "HOL-Library.List_Lexorder"
begin

section \<open>Dynamic QR attendance backend: data model\<close>

text \<open>
  The embedding follows \<^verbatim>\<open>src/server.js\<close>. The five Mongoose models become records,
  a collection becomes the list of its documents in insertion order (what a query without
  a sort returns first is the head-most match), and the teachers are a map from
  \<^verbatim>\<open>_id\<close> to document because the only lookup the code makes on them is
  \<^verbatim>\<open>findById\<close>. A \<^verbatim>\<open>Date\<close> is its time value: milliseconds since the epoch, an
  \<^typ>\<open>int\<close>.
\<close>

type_synonym object_id = nat

datatype status = Present | Absent

record teacher =
  email :: string
  password :: string
  tokens :: "string list"

record student =
  st_regNumber :: string
  st_password :: string

record subject_doc =
  name :: string
  teacherEmail :: string

record attendance =
  regNumber :: string
  subject :: string
  date :: string
  status :: status
  scoreChange :: int

record qr_session =
  qr_subject :: string
  qrId :: string
  createdAt :: int
  expiresAt :: int

record db =
  teachers :: "object_id \<rightharpoonup> teacher"
  students :: "student list"
  subjects :: "subject_doc list"
  attendances :: "attendance list"
  qrSessions :: "qr_session list"

subsection \<open>Responses and store failures\<close>

text \<open>
  Every awaited Mongoose call may reject. \<open>StoreError\<close> is a rejection of the store
  itself, \<open>ValidationError\<close> the rejection of a document that misses a
  \<^verbatim>\<open>required\<close> path. A handler without \<^verbatim>\<open>try/catch\<close> sends nothing when
  a call rejects: that outcome is \<open>Unhandled\<close>.
\<close>

datatype error = StoreError | ValidationError

datatype response =
    Reply nat string
  | ReplyRecord nat string attendance
  | ReplyRecords nat "attendance list"
  | Unhandled error

text \<open>The operations the handlers send to the store; a fault oracle says which of them
  reject during one run of a handler.\<close>

datatype store_op =
    QrSession_findOne_op string
  | Attendance_findOne_op string string string
  | Attendance_save_op attendance
  | Attendance_create_op attendance
  | Attendance_find_op string
  | Student_find_op
  | Subject_find_op
  | Teacher_findById_op object_id
  | Teacher_save_op object_id

type_synonym faults = "store_op \<Rightarrow> bool"

definition no_faults :: faults where
  "no_faults = (\<lambda>_. False)"

subsection \<open>The calendar day: \<^verbatim>\<open>new Date().toISOString().split('T')[0]\<close>\<close>

text \<open>
  \<open>toISOString\<close> prints a time value in UTC as \<^verbatim>\<open>YYYY-MM-DDTHH:mm:ss.sssZ\<close>; years
  outside 0..9999 are printed with a sign and six digits. The day number is turned into
  a civil date in the proleptic Gregorian calendar.
\<close>

definition digit_char :: "nat \<Rightarrow> char" where
  "digit_char d = ''0123456789'' ! (d mod 10)"

definition digits2 :: "nat \<Rightarrow> string" where
  "digits2 k = [digit_char (k div 10), digit_char k]"

definition digits3 :: "nat \<Rightarrow> string" where
  "digits3 k = digit_char (k div 100) # digits2 k"

definition digits4 :: "nat \<Rightarrow> string" where
  "digits4 k = digits2 (k div 100) @ digits2 k"

definition digits6 :: "nat \<Rightarrow> string" where
  "digits6 k = digits2 (k div 10000) @ digits4 k"

definition civil_from_days :: "int \<Rightarrow> int \<times> int \<times> int" where
  "civil_from_days days =
     (let z = days + 719468;
          era = z div 146097;
          doe = z mod 146097;
          yoe = (doe - doe div 1460 + doe div 36524 - doe div 146096) div 365;
          y = yoe + era * 400;
          doy = doe - (365 * yoe + yoe div 4 - yoe div 100);
          mp = (5 * doy + 2) div 153;
          d = doy - (153 * mp + 2) div 5 + 1;
          m = (if mp < 10 then mp + 3 else mp - 9)
      in (if m \<le> 2 then y + 1 else y, m, d))"

definition year_string :: "int \<Rightarrow> string" where
  "year_string y =
     (if 0 \<le> y \<and> y \<le> 9999 then digits4 (nat y)
      else (if y < 0 then ''-'' else ''+'') @ digits6 (nat \<bar>y\<bar>))"

definition date_part :: "int \<times> int \<times> int \<Rightarrow> string" where
  "date_part c =
     (case c of (y, m, d) \<Rightarrow> year_string y @ ''-'' @ digits2 (nat m) @ ''-'' @ digits2 (nat d))"

definition time_part :: "nat \<Rightarrow> string" where
  "time_part ms =
     digits2 (ms div 3600000) @ '':'' @ digits2 (ms div 60000 mod 60) @ '':''
       @ digits2 (ms div 1000 mod 60) @ ''.'' @ digits3 (ms mod 1000)"

definition toISOString :: "int \<Rightarrow> string" where
  "toISOString t =
     date_part (civil_from_days (t div 86400000)) @ ''T''
       @ time_part (nat (t mod 86400000)) @ ''Z''"

definition isoDate :: "int \<Rightarrow> string" where
  "isoDate t = takeWhile (\<lambda>c. c \<noteq> CHR ''T'') (toISOString t)"

subsection \<open>Store operations\<close>

text \<open>
  A Mongoose document read by \<^verbatim>\<open>findOne\<close> is its position in the collection together
  with its fields: \<^verbatim>\<open>save\<close> writes the fields back at that position. No handler
  deletes a document, so positions are stable. The first match in collection order is the
  document \<^verbatim>\<open>findOne\<close> returns.
\<close>

fun first_match :: "('a \<Rightarrow> bool) \<Rightarrow> 'a list \<Rightarrow> (nat \<times> 'a) option" where
  "first_match P [] = None"
| "first_match P (x # xs) =
     (if P x then Some (0, x) else map_option (\<lambda>(i, y). (Suc i, y)) (first_match P xs))"

definition has_key :: "string \<Rightarrow> string \<Rightarrow> string \<Rightarrow> attendance \<Rightarrow> bool" where
  "has_key reg subj day r \<longleftrightarrow> regNumber r = reg \<and> subject r = subj \<and> date r = day"

definition records_for :: "string \<Rightarrow> string \<Rightarrow> string \<Rightarrow> db \<Rightarrow> attendance list" where
  "records_for reg subj day s = filter (has_key reg subj day) (attendances s)"

definition QrSession_findOne :: "faults \<Rightarrow> string \<Rightarrow> db \<Rightarrow> error + qr_session option" where
  "QrSession_findOne F q s =
     (if F (QrSession_findOne_op q) then Inl StoreError
      else Inr (find (\<lambda>x. qrId x = q) (qrSessions s)))"

definition Attendance_findOne ::
  "faults \<Rightarrow> string \<Rightarrow> string \<Rightarrow> string \<Rightarrow> db \<Rightarrow> error + (nat \<times> attendance) option" where
  "Attendance_findOne F reg subj day s =
     (if F (Attendance_findOne_op reg subj day) then Inl StoreError
      else Inr (first_match (has_key reg subj day) (attendances s)))"

text \<open>The schema's \<^verbatim>\<open>required: true\<close> on a String path rejects the empty string; it is
  checked when a new document is written.\<close>

definition valid_attendance :: "attendance \<Rightarrow> bool" where
  "valid_attendance r \<longleftrightarrow> regNumber r \<noteq> [] \<and> subject r \<noteq> [] \<and> date r \<noteq> []"

definition Attendance_create :: "faults \<Rightarrow> attendance \<Rightarrow> db \<Rightarrow> error + db" where
  "Attendance_create F r s =
     (if \<not> valid_attendance r then Inl ValidationError
      else if F (Attendance_create_op r) then Inl StoreError
      else Inr (s\<lparr>attendances := attendances s @ [r]\<rparr>))"

text \<open>\<^verbatim>\<open>record.save()\<close>: a new document (no position yet) is validated and inserted, a
  document that was read is written back where it was read.\<close>

definition Attendance_save :: "faults \<Rightarrow> nat option \<Rightarrow> attendance \<Rightarrow> db \<Rightarrow> error + db" where
  "Attendance_save F pos r s =
     (case pos of
        None \<Rightarrow>
          if \<not> valid_attendance r then Inl ValidationError
          else if F (Attendance_save_op r) then Inl StoreError
          else Inr (s\<lparr>attendances := attendances s @ [r]\<rparr>)
      | Some i \<Rightarrow>
          if F (Attendance_save_op r) then Inl StoreError
          else Inr (s\<lparr>attendances := (attendances s)[i := r]\<rparr>))"

section \<open>Attendance routes\<close>

subsection \<open>\<^verbatim>\<open>POST /attendance/mark\<close>\<close>

text \<open>
  A body field is absent (\<open>None\<close>) or a string. \<^verbatim>\<open>!x\<close> holds of an absent field and of
  the empty string. The handler reads the clock twice: \<open>t1\<close> is the reading compared with
  \<^verbatim>\<open>expiresAt\<close>, \<open>t2\<close> the one the day is computed from.
\<close>

record mark_body =
  b_regNumber :: "string option"
  b_subject :: "string option"
  b_qrId :: "string option"

definition falsy :: "string option \<Rightarrow> bool" where
  "falsy v \<longleftrightarrow> (case v of None \<Rightarrow> True | Some x \<Rightarrow> x = [])"

definition field_text :: "string option \<Rightarrow> string" where
  "field_text v = (case v of None \<Rightarrow> [] | Some x \<Rightarrow> x)"

definition MissingData :: response where
  "MissingData = Reply 400 ''Missing data''"

definition InvalidQr :: response where
  "InvalidQr = Reply 400 ''Invalid QR''"

definition ExpiredQr :: response where
  "ExpiredQr = Reply 400 ''QR expired''"

definition AlreadyMarked :: response where
  "AlreadyMarked = Reply 200 ''Already marked present today''"

definition Marked :: "attendance \<Rightarrow> response" where
  "Marked r = ReplyRecord 200 ''Attendance marked (+1)'' r"

definition ServerError :: response where
  "ServerError = Reply 500 ''Server error''"

definition present_record :: "string \<Rightarrow> string \<Rightarrow> string \<Rightarrow> attendance" where
  "present_record reg subj day =
     \<lparr>regNumber = reg, subject = subj, date = day, status = Present, scoreChange = 1\<rparr>"

text \<open>The body of the \<^verbatim>\<open>try\<close> block after the presence check.\<close>

definition mark_try ::
  "faults \<Rightarrow> int \<Rightarrow> int \<Rightarrow> string \<Rightarrow> string \<Rightarrow> string \<Rightarrow> db \<Rightarrow> (error + response) \<times> db" where
  "mark_try F t1 t2 reg subj q s =
     (case QrSession_findOne F q s of
        Inl e \<Rightarrow> (Inl e, s)
      | Inr None \<Rightarrow> (Inr InvalidQr, s)
      | Inr (Some session) \<Rightarrow>
          if t1 > expiresAt session then (Inr ExpiredQr, s)
          else
            let day = isoDate t2 in
            case Attendance_findOne F reg subj day s of
              Inl e \<Rightarrow> (Inl e, s)
            | Inr found \<Rightarrow>
                if (case found of None \<Rightarrow> False | Some (i, r) \<Rightarrow> status r = Present)
                then (Inr AlreadyMarked, s)
                else
                  let (pos, record) =
                    (case found of
                       None \<Rightarrow>
                         (None, present_record reg subj day)
                     | Some (i, r) \<Rightarrow> (Some i, r\<lparr>status := Present, scoreChange := 1\<rparr>))
                  in case Attendance_save F pos record s of
                       Inl e \<Rightarrow> (Inl e, s)
                     | Inr s' \<Rightarrow> (Inr (Marked record), s'))"

definition mark :: "faults \<Rightarrow> int \<Rightarrow> int \<Rightarrow> mark_body \<Rightarrow> db \<Rightarrow> response \<times> db" where
  "mark F t1 t2 body s =
     (if falsy (b_regNumber body) \<or> falsy (b_subject body) \<or> falsy (b_qrId body)
      then (MissingData, s)
      else
        case mark_try F t1 t2 (field_text (b_regNumber body)) (field_text (b_subject body))
               (field_text (b_qrId body)) s of
          (Inl e, s') \<Rightarrow> (ServerError, s')
        | (Inr r, s') \<Rightarrow> (r, s'))"

subsection \<open>\<^verbatim>\<open>GET /attendance/:regNumber\<close>\<close>

text \<open>\<^verbatim>\<open>.sort({ date: -1 })\<close> orders the strings of the \<^verbatim>\<open>date\<close> path by binary
  comparison, largest first. The order among equal dates is the store's; the model keeps
  collection order.\<close>

fun insert_desc :: "attendance \<Rightarrow> attendance list \<Rightarrow> attendance list" where
  "insert_desc x [] = [x]"
| "insert_desc x (y # ys) = (if date y \<le> date x then x # y # ys else y # insert_desc x ys)"

fun sort_date_desc :: "attendance list \<Rightarrow> attendance list" where
  "sort_date_desc [] = []"
| "sort_date_desc (x # xs) = insert_desc x (sort_date_desc xs)"

definition Attendance_find_sorted :: "faults \<Rightarrow> string \<Rightarrow> db \<Rightarrow> error + attendance list" where
  "Attendance_find_sorted F reg s =
     (if F (Attendance_find_op reg) then Inl StoreError
      else Inr (sort_date_desc (filter (\<lambda>r. regNumber r = reg) (attendances s))))"

definition history :: "faults \<Rightarrow> string \<Rightarrow> db \<Rightarrow> response \<times> db" where
  "history F reg s =
     (case Attendance_find_sorted F reg s of
        Inl e \<Rightarrow> (Unhandled e, s)
      | Inr records \<Rightarrow> (ReplyRecords 200 records, s))"

subsection \<open>\<^verbatim>\<open>POST /attendance/decrement\<close>\<close>

text \<open>The handler has no presence check and no \<^verbatim>\<open>try/catch\<close>; the model covers the
  requests whose body carries both fields as strings.\<close>

definition AbsentRecorded :: response where
  "AbsentRecorded = Reply 200 ''Absent recorded (-3)''"

definition AlreadyAbsent :: response where
  "AlreadyAbsent = Reply 200 ''Already absent today''"

definition NoPenalty :: response where
  "NoPenalty = Reply 200 (''Present '' @ [CHR 0xE2, CHR 0x80, CHR 0x94] @ '' no penalty'')"

definition absent_record :: "string \<Rightarrow> string \<Rightarrow> string \<Rightarrow> attendance" where
  "absent_record reg subj day =
     \<lparr>regNumber = reg, subject = subj, date = day, status = Absent, scoreChange = - 3\<rparr>"

definition decrement :: "faults \<Rightarrow> int \<Rightarrow> string \<Rightarrow> string \<Rightarrow> db \<Rightarrow> response \<times> db" where
  "decrement F t reg subj s =
     (let day = isoDate t in
      case Attendance_findOne F reg subj day s of
        Inl e \<Rightarrow> (Unhandled e, s)
      | Inr None \<Rightarrow>
          (case Attendance_create F (absent_record reg subj day) s of
             Inl e \<Rightarrow> (Unhandled e, s)
           | Inr s' \<Rightarrow> (AbsentRecorded, s'))
      | Inr (Some (i, record)) \<Rightarrow>
          if status record = Absent then (AlreadyAbsent, s) else (NoPenalty, s))"

section \<open>Daily cron\<close>

text \<open>
  The scheduled callback reads all students and all subjects, computes the day once and
  runs two nested \<^verbatim>\<open>for ... of\<close> loops. Nothing in it catches a rejection: the first
  rejected call ends the callback, and the state is what had been written until then.
  The result is the error that ended the run, if any, and the state.
\<close>

fun sweep_subjects ::
  "faults \<Rightarrow> string \<Rightarrow> student \<Rightarrow> subject_doc list \<Rightarrow> db \<Rightarrow> error option \<times> db" where
  "sweep_subjects F today st [] s = (None, s)"
| "sweep_subjects F today st (subj # rest) s =
     (case Attendance_findOne F (st_regNumber st) (name subj) today s of
        Inl e \<Rightarrow> (Some e, s)
      | Inr (Some found) \<Rightarrow> sweep_subjects F today st rest s
      | Inr None \<Rightarrow>
          (case Attendance_create F (absent_record (st_regNumber st) (name subj) today) s of
             Inl e \<Rightarrow> (Some e, s)
           | Inr s' \<Rightarrow> sweep_subjects F today st rest s'))"

fun sweep_students ::
  "faults \<Rightarrow> string \<Rightarrow> student list \<Rightarrow> subject_doc list \<Rightarrow> db \<Rightarrow> error option \<times> db" where
  "sweep_students F today [] subs s = (None, s)"
| "sweep_students F today (st # rest) subs s =
     (case sweep_subjects F today st subs s of
        (Some e, s') \<Rightarrow> (Some e, s')
      | (None, s') \<Rightarrow> sweep_students F today rest subs s')"

definition daily_decrement :: "faults \<Rightarrow> int \<Rightarrow> db \<Rightarrow> error option \<times> db" where
  "daily_decrement F t s =
     (if F Student_find_op then (Some StoreError, s)
      else if F Subject_find_op then (Some StoreError, s)
      else sweep_students F (isoDate t) (students s) (subjects s) s)"

section \<open>Teacher sessions\<close>

text \<open>
  \<^verbatim>\<open>jwt.verify\<close> is a parameter: \<open>verify token\<close> is the \<^verbatim>\<open>id\<close> of the decoded
  payload, or \<open>None\<close> where it throws (bad signature, expired). The header starts with
  \<^verbatim>\<open>'Bearer '\<close>, so \<^verbatim>\<open>split(' ')[1]\<close> is what follows it up to the next space.
\<close>

definition startsWith :: "string \<Rightarrow> string \<Rightarrow> bool" where
  "startsWith h p \<longleftrightarrow> take (length p) h = p"

definition bearer_token :: "string \<Rightarrow> string" where
  "bearer_token h = takeWhile (\<lambda>c. c \<noteq> CHR '' '') (drop 7 h)"

definition authenticate ::
  "faults \<Rightarrow> (string \<Rightarrow> object_id option) \<Rightarrow> string option \<Rightarrow> db
     \<Rightarrow> response + (object_id \<times> teacher \<times> string)" where
  "authenticate F verify authHeader s =
     (if falsy authHeader \<or> \<not> startsWith (field_text authHeader) ''Bearer ''
      then Inl (Reply 401 ''No token provided'')
      else
        let token = bearer_token (field_text authHeader) in
        case verify token of
          None \<Rightarrow> Inl (Reply 401 ''Invalid or expired token'')
        | Some tid \<Rightarrow>
            if F (Teacher_findById_op tid) then Inl (Reply 401 ''Invalid or expired token'')
            else
              case teachers s tid of
                None \<Rightarrow> Inl (Reply 401 ''Invalid token'')
              | Some teacher \<Rightarrow>
                  if token \<notin> set (tokens teacher) then Inl (Reply 401 ''Invalid token'')
                  else Inr (tid, teacher, token))"

definition logout ::
  "faults \<Rightarrow> (string \<Rightarrow> object_id option) \<Rightarrow> string option \<Rightarrow> db \<Rightarrow> response \<times> db" where
  "logout F verify authHeader s =
     (case authenticate F verify authHeader s of
        Inl r \<Rightarrow> (r, s)
      | Inr (tid, teacher, token) \<Rightarrow>
          let teacher' = teacher\<lparr>tokens := filter (\<lambda>t. t \<noteq> token) (tokens teacher)\<rparr> in
          if F (Teacher_save_op tid) then (Unhandled StoreError, s)
          else (Reply 200 ''Logout successful'', s\<lparr>teachers := (teachers s)(tid \<mapsto> teacher')\<rparr>))"

section \<open>Runs of several requests, and the sweep as one loop over pairs\<close>

text \<open>\<open>decrement_calls\<close> sends the same decrement request once at each of the given
  times, one after the other, and collects the responses.\<close>

fun decrement_calls ::
  "faults \<Rightarrow> int list \<Rightarrow> string \<Rightarrow> string \<Rightarrow> db \<Rightarrow> response list \<times> db" where
  "decrement_calls F [] reg subj s = ([], s)"
| "decrement_calls F (t # ts) reg subj s =
     (case decrement F t reg subj s of
        (r, s') \<Rightarrow> (case decrement_calls F ts reg subj s' of (rs, s'') \<Rightarrow> (r # rs, s'')))"

text \<open>The body of the inner loop for one (student, subject) pair, and the two nested loops
  as a single loop over the pairs in the order the nesting visits them
  (\<open>sweep_students_pairs\<close> below).\<close>

definition sweep_pair :: "faults \<Rightarrow> string \<Rightarrow> student \<times> subject_doc \<Rightarrow> db \<Rightarrow> error + db" where
  "sweep_pair F today p s =
     (case Attendance_findOne F (st_regNumber (fst p)) (name (snd p)) today s of
        Inl e \<Rightarrow> Inl e
      | Inr (Some found) \<Rightarrow> Inr s
      | Inr None \<Rightarrow> Attendance_create F (absent_record (st_regNumber (fst p)) (name (snd p)) today) s)"

fun sweep_pairs ::
  "faults \<Rightarrow> string \<Rightarrow> (student \<times> subject_doc) list \<Rightarrow> db \<Rightarrow> error option \<times> db" where
  "sweep_pairs F today [] s = (None, s)"
| "sweep_pairs F today (p # ps) s =
     (case sweep_pair F today p s of
        Inl e \<Rightarrow> (Some e, s)
      | Inr s' \<Rightarrow> sweep_pairs F today ps s')"

text \<open>The (regNumber, subject name) key of a pair.\<close>

definition pair_key :: "student \<times> subject_doc \<Rightarrow> string \<times> string" where
  "pair_key p = (st_regNumber (fst p), name (snd p))"

text \<open>The data model's key invariant: at most one attendance record per
  (regNumber, subject, date).\<close>

definition key_of :: "attendance \<Rightarrow> string \<times> string \<times> string" where
  "key_of r = (regNumber r, subject r, date r)"

definition one_per_key :: "db \<Rightarrow> bool" where
  "one_per_key s \<longleftrightarrow> distinct (map key_of (attendances s))"

section \<open>Example data\<close>

definition example_session :: qr_session where
  "example_session =
     \<lparr>qr_subject = ''Math'', qrId = ''Math-1000-k3x9ab'', createdAt = 1000, expiresAt = 301000\<rparr>"

definition student1 :: student where
  "student1 = \<lparr>st_regNumber = ''21CS01'', st_password = ''$2a$10$hash1''\<rparr>"

definition student2 :: student where
  "student2 = \<lparr>st_regNumber = ''21CS02'', st_password = ''$2a$10$hash2''\<rparr>"

definition math :: subject_doc where
  "math = \<lparr>name = ''Math'', teacherEmail = ''t@school.org''\<rparr>"

definition example_teacher :: teacher where
  "example_teacher =
     \<lparr>email = ''t@school.org'', password = ''$2a$10$hash0'', tokens = [''tok.phone'', ''tok.laptop'']\<rparr>"

definition example_verify :: "string \<Rightarrow> object_id option" where
  "example_verify tok = (if tok = ''tok.phone'' \<or> tok = ''tok.laptop'' then Some 7 else None)"

definition example_db :: db where
  "example_db =
     \<lparr>teachers = [7 \<mapsto> example_teacher], students = [student1, student2], subjects = [math],
      attendances = [], qrSessions = [example_session]\<rparr>"

definition example_body :: mark_body where
  "example_body =
     \<lparr>b_regNumber = Some ''21CS01'', b_subject = Some ''Math'', b_qrId = Some ''Math-1000-k3x9ab''\<rparr>"

definition create_fails_for_student1 :: faults where
  "create_fails_for_student1 op \<longleftrightarrow> op = Attendance_create_op (absent_record ''21CS01'' ''Math'' ''1970-01-01'')"

text \<open>The example store after a sweep on the epoch day, the example store after the first
  student has marked, and a mark request that names a subject no teacher created.\<close>

definition swept_db :: db where
  "swept_db =
     example_db\<lparr>attendances :=
       [absent_record ''21CS01'' ''Math'' ''1970-01-01'',
        absent_record ''21CS02'' ''Math'' ''1970-01-01'']\<rparr>"

definition marked_db :: db where
  "marked_db = example_db\<lparr>attendances := [present_record ''21CS01'' ''Math'' ''1970-01-01'']\<rparr>"

definition history_db :: db where
  "history_db =
     example_db\<lparr>attendances :=
       [absent_record ''21CS01'' ''Math'' ''1970-01-01'',
        present_record ''21CS02'' ''Math'' ''1970-01-02'',
        present_record ''21CS01'' ''Physics'' ''1970-01-03'',
        present_record ''21CS01'' ''Math'' ''1970-01-02'']\<rparr>"

definition ghost_body :: mark_body where
  "ghost_body =
     \<lparr>b_regNumber = Some ''21CS01'', b_subject = Some ''Ghost'', b_qrId = Some ''Math-1000-k3x9ab''\<rparr>"

section \<open>Facts about the model\<close>

subsection \<open>The calendar day\<close>

lemma digit_char_mem: "digit_char d \<in> set ''0123456789''"
  unfolding digit_char_def by (rule nth_mem) simp

lemma digit_char_no_T: "digit_char d \<noteq> CHR ''T''"
  using digit_char_mem [of d] by auto

lemma digits2_no_T: "CHR ''T'' \<notin> set (digits2 k)"
  using digit_char_no_T [of k] digit_char_no_T [of "k div 10"] by (auto simp: digits2_def)

lemma year_string_no_T: "CHR ''T'' \<notin> set (year_string y)"
  using digits2_no_T by (simp add: year_string_def digits4_def digits6_def)

lemma date_part_no_T: "CHR ''T'' \<notin> set (date_part c)"
  using year_string_no_T digits2_no_T by (cases c) (simp add: date_part_def)

lemma takeWhile_stop: "\<forall>x\<in>set xs. P x \<Longrightarrow> \<not> P y \<Longrightarrow> takeWhile P (xs @ y # ys) = xs"
  by (induction xs) auto

text \<open>The day string is the date part of the UTC day the time value falls in.\<close>

lemma isoDate_day: "isoDate t = date_part (civil_from_days (t div 86400000))"
proof -
  have "isoDate t = takeWhile (\<lambda>c. c \<noteq> CHR ''T'')
      (date_part (civil_from_days (t div 86400000)) @ CHR ''T'' # time_part (nat (t mod 86400000)) @ ''Z'')"
    by (simp add: isoDate_def toISOString_def)
  also have "\<dots> = date_part (civil_from_days (t div 86400000))"
    using date_part_no_T [of "civil_from_days (t div 86400000)"]
    by (intro takeWhile_stop) auto
  finally show ?thesis .
qed

lemma isoDate_same_day: "t div 86400000 = t' div 86400000 \<Longrightarrow> isoDate t = isoDate t'"
  by (simp add: isoDate_day)

lemma isoDate_nonempty: "isoDate t \<noteq> []"
  by (cases "civil_from_days (t div 86400000)") (simp add: isoDate_day date_part_def)

lemma civil_from_days_0: "civil_from_days 0 = (1970, 1, 1)"
  unfolding civil_from_days_def Let_def by simp

lemma date_part_epoch: "date_part (1970, 1, 1) = ''1970-01-01''"
  by (simp add: date_part_def year_string_def digits4_def digits2_def digit_char_def)

lemma isoDate_epoch_day: "0 \<le> t \<Longrightarrow> t < 86400000 \<Longrightarrow> isoDate t = ''1970-01-01''"
  by (simp add: isoDate_day civil_from_days_0 date_part_epoch)

subsection \<open>The first match of a collection\<close>

lemma first_match_None: "first_match P xs = None \<longleftrightarrow> filter P xs = []"
  by (induction xs) auto

lemma first_match_Some:
  "first_match P xs = Some (i, r) \<Longrightarrow> i < length xs \<and> xs ! i = r \<and> P r"
proof (induction xs arbitrary: i)
  case Nil
  then show ?case by simp
next
  case (Cons x xs)
  show ?case
  proof (cases "P x")
    case True
    with Cons.prems show ?thesis by simp
  next
    case False
    with Cons.prems obtain k where k: "first_match P xs = Some (k, r)" "i = Suc k"
      by auto
    from Cons.IH [OF k(1)] k(2) show ?thesis by simp
  qed
qed

lemma first_match_append:
  "\<forall>x\<in>set pre. \<not> P x \<Longrightarrow> P r \<Longrightarrow> first_match P (pre @ r # post) = Some (length pre, r)"
  by (induction pre) auto

lemma first_match_filter:
  "first_match P xs = Some (i, r) \<Longrightarrow> filter P xs = r # tl (filter P xs)"
  by (induction xs arbitrary: i) (auto split: if_splits)

lemma filter_update_first:
  "first_match P xs = Some (i, r) \<Longrightarrow> P r' \<Longrightarrow> filter P (xs[i := r']) = r' # tl (filter P xs)"
  by (induction xs arbitrary: i) (auto split: if_splits)

lemma first_match_single:
  "filter P xs = [r] \<Longrightarrow> \<exists>i. first_match P xs = Some (i, r)"
proof -
  assume f: "filter P xs = [r]"
  then have "first_match P xs \<noteq> None" by (simp add: first_match_None)
  then obtain i r' where m: "first_match P xs = Some (i, r')" by (cases "first_match P xs") auto
  from first_match_filter [OF m] f have "r' = r" by simp
  with m show ?thesis by blast
qed

subsection \<open>Marking\<close>

lemma mark_fields:
  assumes "b_regNumber body = Some reg" "reg \<noteq> []" "b_subject body = Some subj" "subj \<noteq> []"
    "b_qrId body = Some q" "q \<noteq> []"
  shows "mark F t1 t2 body s =
     (case mark_try F t1 t2 reg subj q s of (Inl e, s') \<Rightarrow> (ServerError, s') | (Inr r, s') \<Rightarrow> (r, s'))"
  using assms by (simp add: mark_def falsy_def field_text_def)

lemma mark_try_invalid:
  "\<not> F (QrSession_findOne_op q) \<Longrightarrow> find (\<lambda>x. qrId x = q) (qrSessions s) = None
    \<Longrightarrow> mark_try F t1 t2 reg subj q s = (Inr InvalidQr, s)"
  by (simp add: mark_try_def QrSession_findOne_def)

lemma mark_try_expired:
  "\<not> F (QrSession_findOne_op q) \<Longrightarrow> find (\<lambda>x. qrId x = q) (qrSessions s) = Some session
    \<Longrightarrow> expiresAt session < t1 \<Longrightarrow> mark_try F t1 t2 reg subj q s = (Inr ExpiredQr, s)"
  by (simp add: mark_try_def QrSession_findOne_def)

text \<open>Once the QR check has passed, the outcome is one of four.\<close>

lemma mark_try_valid:
  assumes "\<not> F (QrSession_findOne_op q)" "find (\<lambda>x. qrId x = q) (qrSessions s) = Some session"
    "t1 \<le> expiresAt session"
  shows "fst (mark_try F t1 t2 reg subj q s) \<in>
           {Inl StoreError, Inl ValidationError, Inr AlreadyMarked} \<union> range (\<lambda>r. Inr (Marked r))"
proof -
  have e: "\<And>x. x = StoreError \<or> x = ValidationError"
    by (case_tac x) auto
  show ?thesis
    using assms e
    by (auto simp: mark_try_def QrSession_findOne_def Let_def
        split: sum.splits option.splits prod.splits)
qed

lemma has_key_present: "has_key reg subj day (present_record reg subj day)"
  by (simp add: has_key_def present_record_def)

lemma upgrade_is_present_record:
  "has_key reg subj day r \<Longrightarrow> r\<lparr>status := Present, scoreChange := 1\<rparr> = present_record reg subj day"
  by (cases r) (simp add: has_key_def present_record_def)

lemma mark_try_new:
  assumes "find (\<lambda>x. qrId x = q) (qrSessions s) = Some session" "t1 \<le> expiresAt session"
    "reg \<noteq> []" "subj \<noteq> []"
    "first_match (has_key reg subj (isoDate t2)) (attendances s) = None"
  shows "mark_try no_faults t1 t2 reg subj q s =
     (Inr (Marked (present_record reg subj (isoDate t2))),
      s\<lparr>attendances := attendances s @ [present_record reg subj (isoDate t2)]\<rparr>)"
  using assms isoDate_nonempty [of t2]
  by (simp add: mark_try_def QrSession_findOne_def Attendance_findOne_def Attendance_save_def
      no_faults_def valid_attendance_def present_record_def Let_def)

lemma mark_try_upgrade:
  assumes "find (\<lambda>x. qrId x = q) (qrSessions s) = Some session" "t1 \<le> expiresAt session"
    "first_match (has_key reg subj (isoDate t2)) (attendances s) = Some (i, r)"
    "status r = Absent"
  shows "mark_try no_faults t1 t2 reg subj q s =
     (Inr (Marked (present_record reg subj (isoDate t2))),
      s\<lparr>attendances := (attendances s)[i := present_record reg subj (isoDate t2)]\<rparr>)"
proof -
  from first_match_Some [OF assms(3)] have "has_key reg subj (isoDate t2) r" by simp
  then have "r\<lparr>status := Present, scoreChange := 1\<rparr> = present_record reg subj (isoDate t2)"
    by (rule upgrade_is_present_record)
  with assms show ?thesis
    by (simp add: mark_try_def QrSession_findOne_def Attendance_findOne_def Attendance_save_def
        no_faults_def Let_def)
qed

lemma mark_try_already:
  assumes "find (\<lambda>x. qrId x = q) (qrSessions s) = Some session" "t1 \<le> expiresAt session"
    "first_match (has_key reg subj (isoDate t2)) (attendances s) = Some (i, r)"
    "status r = Present"
  shows "mark_try no_faults t1 t2 reg subj q s = (Inr AlreadyMarked, s)"
  using assms
  by (simp add: mark_try_def QrSession_findOne_def Attendance_findOne_def no_faults_def Let_def)

lemma mark_invalid:
  assumes "b_regNumber body = Some reg" "reg \<noteq> []" "b_subject body = Some subj" "subj \<noteq> []"
    "b_qrId body = Some q" "q \<noteq> []"
    and "\<not> F (QrSession_findOne_op q)" "find (\<lambda>x. qrId x = q) (qrSessions s) = None"
  shows "mark F t1 t2 body s = (InvalidQr, s)"
  using assms by (simp add: mark_fields mark_try_invalid)

lemma mark_expired:
  assumes "b_regNumber body = Some reg" "reg \<noteq> []" "b_subject body = Some subj" "subj \<noteq> []"
    "b_qrId body = Some q" "q \<noteq> []"
    and "\<not> F (QrSession_findOne_op q)" "find (\<lambda>x. qrId x = q) (qrSessions s) = Some session"
    "expiresAt session < t1"
  shows "mark F t1 t2 body s = (ExpiredQr, s)"
  using assms by (simp add: mark_fields mark_try_expired)

lemma mark_valid:
  assumes "b_regNumber body = Some reg" "reg \<noteq> []" "b_subject body = Some subj" "subj \<noteq> []"
    "b_qrId body = Some q" "q \<noteq> []"
    and "\<not> F (QrSession_findOne_op q)" "find (\<lambda>x. qrId x = q) (qrSessions s) = Some session"
    "t1 \<le> expiresAt session"
  shows "fst (mark F t1 t2 body s) \<noteq> InvalidQr \<and> fst (mark F t1 t2 body s) \<noteq> ExpiredQr"
proof -
  have m: "mark F t1 t2 body s =
     (case mark_try F t1 t2 reg subj q s of (Inl e, s') \<Rightarrow> (ServerError, s') | (Inr r, s') \<Rightarrow> (r, s'))"
    using assms(1-6) by (rule mark_fields)
  obtain o' s' where o: "mark_try F t1 t2 reg subj q s = (o', s')"
    by (cases "mark_try F t1 t2 reg subj q s")
  from mark_try_valid [of F q s session t1 t2 reg subj] assms(7-9) o
  have "o' \<in> {Inl StoreError, Inl ValidationError, Inr AlreadyMarked} \<union> range (\<lambda>r. Inr (Marked r))"
    by simp
  then show ?thesis
    unfolding m o
    by (auto simp: ServerError_def InvalidQr_def ExpiredQr_def AlreadyMarked_def Marked_def)
qed

text \<open>
  C4. With a complete body and a store that answers the session lookup, marking answers
  \<open>InvalidQr\<close> exactly when no session carries the presented qrId, and \<open>ExpiredQr\<close>
  exactly when the session found has \<open>expiresAt\<close> before the clock reading; so it answers
  \<open>ExpiredQr\<close> one millisecond after \<open>expiresAt\<close>, and passes the QR check one
  millisecond before it and at \<open>expiresAt\<close> itself.
\<close>

theorem qr_validation:
  assumes "b_regNumber body = Some reg" "reg \<noteq> []" "b_subject body = Some subj" "subj \<noteq> []"
    "b_qrId body = Some q" "q \<noteq> []"
    and "\<not> F (QrSession_findOne_op q)"
  shows "(fst (mark F t1 t2 body s) = InvalidQr \<longleftrightarrow> find (\<lambda>x. qrId x = q) (qrSessions s) = None) \<and>
         (fst (mark F t1 t2 body s) = ExpiredQr \<longleftrightarrow>
            (\<exists>session. find (\<lambda>x. qrId x = q) (qrSessions s) = Some session \<and> expiresAt session < t1)) \<and>
         (\<forall>session. find (\<lambda>x. qrId x = q) (qrSessions s) = Some session \<longrightarrow>
            fst (mark F (expiresAt session + 1) t2 body s) = ExpiredQr \<and>
            fst (mark F (expiresAt session - 1) t2 body s) \<notin> {InvalidQr, ExpiredQr} \<and>
            fst (mark F (expiresAt session) t2 body s) \<notin> {InvalidQr, ExpiredQr})"
proof (cases "find (\<lambda>x. qrId x = q) (qrSessions s)")
  case None
  have "\<And>t. mark F t t2 body s = (InvalidQr, s)"
    using mark_invalid [of body reg subj q F s] assms None by simp
  with None show ?thesis by (simp add: InvalidQr_def ExpiredQr_def)
next
  case (Some session)
  have late: "\<And>t. expiresAt session < t \<Longrightarrow> mark F t t2 body s = (ExpiredQr, s)"
    using mark_expired [of body reg subj q F s session] assms Some by simp
  have early: "\<And>t. t \<le> expiresAt session \<Longrightarrow>
      fst (mark F t t2 body s) \<noteq> InvalidQr \<and> fst (mark F t t2 body s) \<noteq> ExpiredQr"
    using mark_valid [of body reg subj q F s session] assms Some by simp
  have a: "fst (mark F t1 t2 body s) \<noteq> InvalidQr"
    using late [of t1] early [of t1] by (cases "expiresAt session < t1") (auto simp: InvalidQr_def ExpiredQr_def)
  have b: "fst (mark F t1 t2 body s) = ExpiredQr \<longleftrightarrow> expiresAt session < t1"
    using late [of t1] early [of t1] by (cases "expiresAt session < t1") auto
  have c: "fst (mark F (expiresAt session + 1) t2 body s) = ExpiredQr"
    using late [of "expiresAt session + 1"] by simp
  have d: "fst (mark F (expiresAt session - 1) t2 body s) \<notin> {InvalidQr, ExpiredQr}"
    using early [of "expiresAt session - 1"] by simp
  have e: "fst (mark F (expiresAt session) t2 body s) \<notin> {InvalidQr, ExpiredQr}"
    using early [of "expiresAt session"] by simp
  from a b c d e Some show ?thesis by simp
qed

text \<open>
  C5. With a complete body and a store that answers the session lookup, a mark request
  whose qrId is unknown is answered \<open>InvalidQr\<close>, one whose session has expired is
  answered \<open>ExpiredQr\<close>, and in both cases the state after the call is the state before it.
\<close>

theorem mark_qr_failure_atomic:
  assumes "b_regNumber body = Some reg" "reg \<noteq> []" "b_subject body = Some subj" "subj \<noteq> []"
    "b_qrId body = Some q" "q \<noteq> []"
    and "\<not> F (QrSession_findOne_op q)"
  shows "(find (\<lambda>x. qrId x = q) (qrSessions s) = None \<longrightarrow> mark F t1 t2 body s = (InvalidQr, s)) \<and>
         (\<forall>session. find (\<lambda>x. qrId x = q) (qrSessions s) = Some session \<and> expiresAt session < t1
            \<longrightarrow> mark F t1 t2 body s = (ExpiredQr, s))"
  using assms by (simp add: mark_fields mark_try_invalid mark_try_expired)

lemma example_find_session:
  "find (\<lambda>x. qrId x = ''Math-1000-k3x9ab'') (qrSessions example_db) = Some example_session"
  by (simp add: example_db_def example_session_def)

theorem qr_validation_witness:
  "b_regNumber example_body = Some ''21CS01'' \<and> b_subject example_body = Some ''Math'' \<and>
   b_qrId example_body = Some ''Math-1000-k3x9ab'' \<and>
   \<not> no_faults (QrSession_findOne_op ''Math-1000-k3x9ab'') \<and>
   expiresAt example_session = 301000 \<and>
   fst (mark no_faults 301001 120000 example_body example_db) = ExpiredQr \<and>
   fst (mark no_faults 300999 120000 example_body example_db) \<notin> {InvalidQr, ExpiredQr} \<and>
   fst (mark no_faults 301000 120000 example_body example_db) \<notin> {InvalidQr, ExpiredQr}"
  using qr_validation [of example_body "''21CS01''" "''Math''" "''Math-1000-k3x9ab''" no_faults
      120000 120000 example_db]
  by (simp add: example_find_session) (simp add: example_body_def example_session_def no_faults_def)

theorem mark_qr_failure_atomic_witness:
  "b_regNumber example_body = Some ''21CS01'' \<and> b_subject example_body = Some ''Math'' \<and>
   b_qrId example_body = Some ''Math-1000-k3x9ab'' \<and>
   \<not> no_faults (QrSession_findOne_op ''Math-1000-k3x9ab'') \<and>
   find (\<lambda>x. qrId x = ''Math-1000-k3x9ab'') (qrSessions example_db) = Some example_session \<and>
   expiresAt example_session < 301001 \<and>
   mark no_faults 301001 301001 example_body example_db = (ExpiredQr, example_db)"
  using mark_qr_failure_atomic [of example_body "''21CS01''" "''Math''" "''Math-1000-k3x9ab''"
      no_faults example_db 301001 301001]
  by (simp add: example_find_session) (simp add: example_body_def example_session_def no_faults_def)

lemma mark_new:
  assumes "b_regNumber body = Some reg" "reg \<noteq> []" "b_subject body = Some subj" "subj \<noteq> []"
    "b_qrId body = Some q" "q \<noteq> []"
    and "find (\<lambda>x. qrId x = q) (qrSessions s) = Some session" "t1 \<le> expiresAt session"
    and "first_match (has_key reg subj (isoDate t2)) (attendances s) = None"
  shows "mark no_faults t1 t2 body s =
     (Marked (present_record reg subj (isoDate t2)),
      s\<lparr>attendances := attendances s @ [present_record reg subj (isoDate t2)]\<rparr>)"
  using assms by (simp add: mark_fields mark_try_new)

lemma mark_upgrade:
  assumes "b_regNumber body = Some reg" "reg \<noteq> []" "b_subject body = Some subj" "subj \<noteq> []"
    "b_qrId body = Some q" "q \<noteq> []"
    and "find (\<lambda>x. qrId x = q) (qrSessions s) = Some session" "t1 \<le> expiresAt session"
    and "first_match (has_key reg subj (isoDate t2)) (attendances s) = Some (i, r)"
    and "status r = Absent"
  shows "mark no_faults t1 t2 body s =
     (Marked (present_record reg subj (isoDate t2)),
      s\<lparr>attendances := (attendances s)[i := present_record reg subj (isoDate t2)]\<rparr>)"
  using assms by (simp add: mark_fields mark_try_upgrade)

lemma mark_already:
  assumes "b_regNumber body = Some reg" "reg \<noteq> []" "b_subject body = Some subj" "subj \<noteq> []"
    "b_qrId body = Some q" "q \<noteq> []"
    and "find (\<lambda>x. qrId x = q) (qrSessions s) = Some session" "t1 \<le> expiresAt session"
    and "first_match (has_key reg subj (isoDate t2)) (attendances s) = Some (i, r)"
    and "status r = Present"
  shows "mark no_faults t1 t2 body s = (AlreadyMarked, s)"
  using assms by (simp add: mark_fields mark_try_already)

text \<open>What the first successful mark leaves behind, whether it inserts or upgrades.\<close>

lemma mark_first:
  assumes "b_regNumber body = Some reg" "reg \<noteq> []" "b_subject body = Some subj" "subj \<noteq> []"
    "b_qrId body = Some q" "q \<noteq> []"
    and "find (\<lambda>x. qrId x = q) (qrSessions s) = Some session" "t1 \<le> expiresAt session"
    and "\<forall>r\<in>set (records_for reg subj (isoDate t2) s). status r = Absent"
  shows "\<exists>s'. mark no_faults t1 t2 body s = (Marked (present_record reg subj (isoDate t2)), s') \<and>
           qrSessions s' = qrSessions s \<and>
           records_for reg subj (isoDate t2) s' =
             present_record reg subj (isoDate t2) # tl (records_for reg subj (isoDate t2) s)"
proof (cases "first_match (has_key reg subj (isoDate t2)) (attendances s)")
  case None
  then have "records_for reg subj (isoDate t2) s = []"
    by (simp add: records_for_def first_match_None)
  with mark_new [OF assms(1-8) None] show ?thesis
    by (simp add: records_for_def has_key_present)
next
  case (Some a)
  obtain i r where a: "a = (i, r)" by (cases a)
  note m = Some [unfolded a]
  from first_match_filter [OF m] have "r \<in> set (records_for reg subj (isoDate t2) s)"
    unfolding records_for_def by (metis list.set_intros(1))
  with assms(9) have "status r = Absent" by blast
  from mark_upgrade [OF assms(1-8) m this] filter_update_first [OF m has_key_present]
  show ?thesis by (simp add: records_for_def)
qed

text \<open>
  C1. With a valid, unexpired QR id and a key that holds at most one record, none of them
  present, two mark requests for the same (regNumber, subject, day) leave exactly one
  record for the key, with status present and scoreChange +1: the first call writes it and
  answers with it, the second answers \<open>AlreadyMarked\<close> and leaves the state as it was.
\<close>

theorem mark_twice:
  assumes "b_regNumber body = Some reg" "reg \<noteq> []" "b_subject body = Some subj" "subj \<noteq> []"
    "b_qrId body = Some q" "q \<noteq> []"
    and "find (\<lambda>x. qrId x = q) (qrSessions s) = Some session"
    and "t1 \<le> expiresAt session" "t1' \<le> expiresAt session"
    and "isoDate t2 = day" "isoDate t2' = day"
    and "length (records_for reg subj day s) \<le> 1"
    and "\<forall>r\<in>set (records_for reg subj day s). status r = Absent"
    and "s' = snd (mark no_faults t1 t2 body s)"
  shows "mark no_faults t1 t2 body s = (Marked (present_record reg subj day), s') \<and>
         mark no_faults t1' t2' body s' = (AlreadyMarked, s') \<and>
         records_for reg subj day s' = [present_record reg subj day] \<and>
         status (present_record reg subj day) = Present \<and>
         scoreChange (present_record reg subj day) = 1"
proof -
  from mark_first [OF assms(1-8), of t2] assms(10,13)
  obtain u where u: "mark no_faults t1 t2 body s = (Marked (present_record reg subj day), u)"
    "qrSessions u = qrSessions s"
    "records_for reg subj day u = present_record reg subj day # tl (records_for reg subj day s)"
    by auto
  from u(1) assms(14) have s': "s' = u" by simp
  from assms(12) have "tl (records_for reg subj day s) = []"
    by (cases "records_for reg subj day s") auto
  with u(3) have one: "records_for reg subj day u = [present_record reg subj day]" by simp
  then have "\<exists>i. first_match (has_key reg subj day) (attendances u) =
      Some (i, present_record reg subj day)"
    using first_match_single [of "has_key reg subj day" "attendances u" "present_record reg subj day"]
    by (simp add: records_for_def)
  then obtain i where i: "first_match (has_key reg subj (isoDate t2')) (attendances u) =
      Some (i, present_record reg subj day)"
    unfolding assms(11) ..
  have "status (present_record reg subj day) = Present"
    by (simp add: present_record_def)
  from mark_already [OF assms(1-6) _ assms(9) i this] assms(7) u(2)
  have "mark no_faults t1' t2' body u = (AlreadyMarked, u)" by simp
  with u(1) one s' show ?thesis by (simp add: present_record_def)
qed

text \<open>
  C2. When the first record of a key is an absent record (whatever its delta, the sweep's
  -3 included), a successful mark writes present and +1 over that same record where it
  lies: every other document keeps its place, the collection does not grow, and the key
  has as many records as before.
\<close>

theorem mark_upgrades_absent:
  assumes "b_regNumber body = Some reg" "reg \<noteq> []" "b_subject body = Some subj" "subj \<noteq> []"
    "b_qrId body = Some q" "q \<noteq> []"
    and "find (\<lambda>x. qrId x = q) (qrSessions s) = Some session" "t1 \<le> expiresAt session"
    and "attendances s = pre @ r # post"
    and "\<forall>x\<in>set pre. \<not> has_key reg subj (isoDate t2) x"
    and "has_key reg subj (isoDate t2) r" "status r = Absent"
    and "s' = snd (mark no_faults t1 t2 body s)"
  shows "mark no_faults t1 t2 body s = (Marked (present_record reg subj (isoDate t2)), s') \<and>
         s' = s\<lparr>attendances := pre @ present_record reg subj (isoDate t2) # post\<rparr> \<and>
         scoreChange (present_record reg subj (isoDate t2)) = 1 \<and>
         status (present_record reg subj (isoDate t2)) = Present \<and>
         length (records_for reg subj (isoDate t2) s') = length (records_for reg subj (isoDate t2) s)"
proof -
  have m: "first_match (has_key reg subj (isoDate t2)) (attendances s) = Some (length pre, r)"
    unfolding assms(9) using assms(10,11) by (rule first_match_append)
  from mark_upgrade [OF assms(1-8) m assms(12)]
  have u: "mark no_faults t1 t2 body s =
      (Marked (present_record reg subj (isoDate t2)),
       s\<lparr>attendances := pre @ present_record reg subj (isoDate t2) # post\<rparr>)"
    by (simp add: assms(9))
  with assms(13) have s': "s' = s\<lparr>attendances := pre @ present_record reg subj (isoDate t2) # post\<rparr>"
    by simp
  have "length (records_for reg subj (isoDate t2) s') = length (records_for reg subj (isoDate t2) s)"
    using assms(11) by (simp add: s' records_for_def assms(9) has_key_present)
  with u s' show ?thesis by (simp add: present_record_def)
qed

text \<open>
  C10. The session found by the qrId is only checked for expiry. Whatever subject \<open>a\<close> it
  was created for and whatever subject \<open>b\<close> the request names (equal to \<open>a\<close> or not, known
  to the store or not), a mark request with a valid, unexpired qrId for a key without a
  present record succeeds, and the record it writes is the present/+1 record of
  (regNumber, \<open>b\<close>, today).
\<close>

theorem mark_ignores_session_subject:
  assumes "b_regNumber body = Some reg" "reg \<noteq> []" "b_subject body = Some b" "b \<noteq> []"
    "b_qrId body = Some q" "q \<noteq> []"
    and "find (\<lambda>x. qrId x = q) (qrSessions s) = Some session" "qr_subject session = a"
    and "t1 \<le> expiresAt session"
    and "\<forall>r\<in>set (records_for reg b (isoDate t2) s). status r = Absent"
  shows "fst (mark no_faults t1 t2 body s) = Marked (present_record reg b (isoDate t2)) \<and>
         present_record reg b (isoDate t2)
           \<in> set (records_for reg b (isoDate t2) (snd (mark no_faults t1 t2 body s))) \<and>
         subject (present_record reg b (isoDate t2)) = b"
proof -
  from mark_first [OF assms(1-7) assms(9,10)]
  obtain u where "mark no_faults t1 t2 body s = (Marked (present_record reg b (isoDate t2)), u)"
    "records_for reg b (isoDate t2) u =
       present_record reg b (isoDate t2) # tl (records_for reg b (isoDate t2) s)"
    by auto
  then show ?thesis by (simp add: present_record_def)
qed

lemma example_no_records: "records_for reg subj day example_db = []"
  by (simp add: records_for_def example_db_def)

theorem mark_twice_witness:
  "find (\<lambda>x. qrId x = ''Math-1000-k3x9ab'') (qrSessions example_db) = Some example_session \<and>
   120000 \<le> expiresAt example_session \<and> 125000 \<le> expiresAt example_session \<and>
   isoDate 120000 = ''1970-01-01'' \<and> isoDate 125000 = ''1970-01-01'' \<and>
   length (records_for ''21CS01'' ''Math'' ''1970-01-01'' example_db) \<le> 1 \<and>
   mark no_faults 120000 120000 example_body example_db =
     (Marked (present_record ''21CS01'' ''Math'' ''1970-01-01''),
      snd (mark no_faults 120000 120000 example_body example_db)) \<and>
   mark no_faults 125000 125000 example_body (snd (mark no_faults 120000 120000 example_body example_db)) =
     (AlreadyMarked, snd (mark no_faults 120000 120000 example_body example_db)) \<and>
   records_for ''21CS01'' ''Math'' ''1970-01-01'' (snd (mark no_faults 120000 120000 example_body example_db)) =
     [present_record ''21CS01'' ''Math'' ''1970-01-01'']"
  using mark_twice [of example_body "''21CS01''" "''Math''" "''Math-1000-k3x9ab''" example_db
      example_session 120000 125000 120000 "''1970-01-01''" 125000
      "snd (mark no_faults 120000 120000 example_body example_db)"]
  by (simp add: example_find_session example_no_records isoDate_epoch_day)
     (simp add: example_body_def example_session_def)

lemma swept_find_session:
  "find (\<lambda>x. qrId x = ''Math-1000-k3x9ab'') (qrSessions swept_db) = Some example_session"
  by (simp add: swept_db_def example_db_def example_session_def)

theorem mark_upgrades_absent_witness:
  "attendances swept_db =
     [] @ absent_record ''21CS01'' ''Math'' ''1970-01-01'' # [absent_record ''21CS02'' ''Math'' ''1970-01-01''] \<and>
   scoreChange (absent_record ''21CS01'' ''Math'' ''1970-01-01'') = - 3 \<and>
   fst (mark no_faults 120000 120000 example_body swept_db) =
     Marked (present_record ''21CS01'' ''Math'' ''1970-01-01'') \<and>
   snd (mark no_faults 120000 120000 example_body swept_db) =
     swept_db\<lparr>attendances :=
       [present_record ''21CS01'' ''Math'' ''1970-01-01'',
        absent_record ''21CS02'' ''Math'' ''1970-01-01'']\<rparr>"
proof -
  let ?s' = "snd (mark no_faults 120000 120000 example_body swept_db)"
  let ?day = "''1970-01-01''"
  have day: "isoDate 120000 = ?day" by (simp add: isoDate_epoch_day)
  have att: "attendances swept_db =
      [] @ absent_record ''21CS01'' ''Math'' ?day # [absent_record ''21CS02'' ''Math'' ?day]"
    by (simp add: swept_db_def)
  have "mark no_faults 120000 120000 example_body swept_db =
          (Marked (present_record ''21CS01'' ''Math'' (isoDate 120000)), ?s') \<and>
        ?s' = swept_db\<lparr>attendances :=
          [] @ present_record ''21CS01'' ''Math'' (isoDate 120000) # [absent_record ''21CS02'' ''Math'' ?day]\<rparr> \<and>
        scoreChange (present_record ''21CS01'' ''Math'' (isoDate 120000)) = 1 \<and>
        status (present_record ''21CS01'' ''Math'' (isoDate 120000)) = Present \<and>
        length (records_for ''21CS01'' ''Math'' (isoDate 120000) ?s') =
          length (records_for ''21CS01'' ''Math'' (isoDate 120000) swept_db)"
    by (rule mark_upgrades_absent [where q = "''Math-1000-k3x9ab''" and session = example_session
          and r = "absent_record ''21CS01'' ''Math'' ?day"])
       (simp_all add: swept_find_session att day example_body_def example_session_def
          absent_record_def has_key_def)
  then have "fst (mark no_faults 120000 120000 example_body swept_db) =
          Marked (present_record ''21CS01'' ''Math'' (isoDate 120000))"
    and "?s' = swept_db\<lparr>attendances :=
          [] @ present_record ''21CS01'' ''Math'' (isoDate 120000) # [absent_record ''21CS02'' ''Math'' ?day]\<rparr>"
    by (metis fst_conv, blast)
  then show ?thesis by (simp add: att day absent_record_def)
qed

theorem mark_ignores_session_subject_witness:
  "qr_subject example_session = ''Math'' \<and> b_subject ghost_body = Some ''Ghost'' \<and>
   ''Ghost'' \<notin> set (map name (subjects example_db)) \<and>
   120000 \<le> expiresAt example_session \<and>
   fst (mark no_faults 120000 120000 ghost_body example_db) =
     Marked (present_record ''21CS01'' ''Ghost'' ''1970-01-01'') \<and>
   present_record ''21CS01'' ''Ghost'' ''1970-01-01''
     \<in> set (records_for ''21CS01'' ''Ghost'' ''1970-01-01''
          (snd (mark no_faults 120000 120000 ghost_body example_db)))"
  using mark_ignores_session_subject [of ghost_body "''21CS01''" "''Ghost''" "''Math-1000-k3x9ab''"
      example_db example_session "''Math''" 120000 120000]
  by (simp add: example_find_session example_no_records isoDate_epoch_day)
     (simp add: ghost_body_def example_session_def example_db_def math_def)

subsection \<open>The manual decrement\<close>

lemma has_key_absent: "has_key reg subj day (absent_record reg subj day)"
  by (simp add: has_key_def absent_record_def)

lemma decrement_missing:
  assumes "reg \<noteq> []" "subj \<noteq> []"
    and "first_match (has_key reg subj (isoDate t)) (attendances s) = None"
  shows "decrement no_faults t reg subj s =
     (AbsentRecorded, s\<lparr>attendances := attendances s @ [absent_record reg subj (isoDate t)]\<rparr>)"
  using assms isoDate_nonempty [of t]
  by (simp add: decrement_def Attendance_findOne_def Attendance_create_def no_faults_def
      valid_attendance_def absent_record_def Let_def)

lemma decrement_absent:
  assumes "first_match (has_key reg subj (isoDate t)) (attendances s) = Some (i, r)"
    and "status r = Absent"
  shows "decrement no_faults t reg subj s = (AlreadyAbsent, s)"
  using assms by (simp add: decrement_def Attendance_findOne_def no_faults_def Let_def)

lemma decrement_present:
  assumes "first_match (has_key reg subj (isoDate t)) (attendances s) = Some (i, r)"
    and "status r = Present"
  shows "decrement no_faults t reg subj s = (NoPenalty, s)"
  using assms by (simp add: decrement_def Attendance_findOne_def no_faults_def Let_def)

lemma decrement_calls_absent:
  assumes "\<forall>t\<in>set ts. isoDate t = day"
    and "first_match (has_key reg subj day) (attendances s) = Some (i, r)" "status r = Absent"
  shows "decrement_calls no_faults ts reg subj s = (replicate (length ts) AlreadyAbsent, s)"
  using assms
proof (induction ts)
  case Nil
  then show ?case by simp
next
  case (Cons t ts)
  then have "decrement no_faults t reg subj s = (AlreadyAbsent, s)"
    using decrement_absent [of reg subj t s i r] by simp
  with Cons show ?case by simp
qed

text \<open>
  C3. The decrement of a key (non-empty regNumber and subject) with no record, sent one or
  more times on the same day, answers \<open>AbsentRecorded\<close> once and \<open>AlreadyAbsent\<close> every
  time after, and leaves exactly one record for the key, absent with scoreChange -3. When
  the record found for the key is absent the call answers \<open>AlreadyAbsent\<close>, when it is
  present it answers \<open>NoPenalty\<close>, and in both cases the state is unchanged.
\<close>

theorem decrement_idempotent:
  assumes "reg \<noteq> []" "subj \<noteq> []"
  shows "(ts \<noteq> [] \<and> (\<forall>t\<in>set ts. isoDate t = day) \<and> records_for reg subj day s = [] \<longrightarrow>
            decrement_calls no_faults ts reg subj s =
              (AbsentRecorded # replicate (length ts - 1) AlreadyAbsent,
               s\<lparr>attendances := attendances s @ [absent_record reg subj day]\<rparr>) \<and>
            records_for reg subj day (snd (decrement_calls no_faults ts reg subj s)) =
              [absent_record reg subj day] \<and>
            status (absent_record reg subj day) = Absent \<and>
            scoreChange (absent_record reg subj day) = - 3) \<and>
         (\<forall>i r. first_match (has_key reg subj (isoDate t)) (attendances s) = Some (i, r) \<longrightarrow>
            decrement no_faults t reg subj s =
              (if status r = Absent then AlreadyAbsent else NoPenalty, s))"
proof -
  have many: "decrement_calls no_faults ts reg subj s =
              (AbsentRecorded # replicate (length ts - 1) AlreadyAbsent,
               s\<lparr>attendances := attendances s @ [absent_record reg subj day]\<rparr>)"
    if ne: "ts \<noteq> []" and days: "\<forall>t\<in>set ts. isoDate t = day"
      and none: "records_for reg subj day s = []"
  proof -
    from ne obtain t0 rest where ts: "ts = t0 # rest" by (cases ts) auto
    let ?s' = "s\<lparr>attendances := attendances s @ [absent_record reg subj day]\<rparr>"
    from days ts have d0: "isoDate t0 = day" and dr: "\<forall>t\<in>set rest. isoDate t = day" by auto
    from none have "first_match (has_key reg subj (isoDate t0)) (attendances s) = None"
      by (simp add: first_match_None records_for_def d0)
    from decrement_missing [OF assms this]
    have first: "decrement no_faults t0 reg subj s = (AbsentRecorded, ?s')" by (simp add: d0)
    from none have "filter (has_key reg subj day) (attendances ?s') = [absent_record reg subj day]"
      by (simp add: records_for_def has_key_absent)
    from first_match_single [OF this]
    obtain i where "first_match (has_key reg subj day) (attendances ?s') =
        Some (i, absent_record reg subj day)" ..
    from decrement_calls_absent [OF dr this]
    have "decrement_calls no_faults rest reg subj ?s' = (replicate (length rest) AlreadyAbsent, ?s')"
      by (simp add: absent_record_def)
    with first show ?thesis by (simp add: ts)
  qed
  have one: "\<And>i r. first_match (has_key reg subj (isoDate t)) (attendances s) = Some (i, r) \<Longrightarrow>
      decrement no_faults t reg subj s = (if status r = Absent then AlreadyAbsent else NoPenalty, s)"
  proof -
    fix i r
    assume m: "first_match (has_key reg subj (isoDate t)) (attendances s) = Some (i, r)"
    show "decrement no_faults t reg subj s = (if status r = Absent then AlreadyAbsent else NoPenalty, s)"
    proof (cases "status r")
      case Present
      with decrement_present [OF m] show ?thesis by simp
    next
      case Absent
      with decrement_absent [OF m] show ?thesis by simp
    qed
  qed
  have rec: "records_for reg subj day (s\<lparr>attendances := attendances s @ [absent_record reg subj day]\<rparr>) =
      [absent_record reg subj day]" if "records_for reg subj day s = []"
    using that by (simp add: records_for_def has_key_absent)
  from many one rec show ?thesis
    by (simp add: absent_record_def)
qed

theorem decrement_idempotent_witness:
  "''21CS02'' \<noteq> [] \<and> ''Math'' \<noteq> [] \<and> [1000, 2000, 3000] \<noteq> ([] :: int list) \<and>
   isoDate 1000 = ''1970-01-01'' \<and> isoDate 2000 = ''1970-01-01'' \<and>
   isoDate 3000 = ''1970-01-01'' \<and>
   records_for ''21CS02'' ''Math'' ''1970-01-01'' example_db = [] \<and>
   decrement_calls no_faults [1000, 2000, 3000] ''21CS02'' ''Math'' example_db =
     ([AbsentRecorded, AlreadyAbsent, AlreadyAbsent],
      example_db\<lparr>attendances := [absent_record ''21CS02'' ''Math'' ''1970-01-01'']\<rparr>) \<and>
   first_match (has_key ''21CS02'' ''Math'' (isoDate 1000)) (attendances swept_db) =
     Some (1, absent_record ''21CS02'' ''Math'' ''1970-01-01'') \<and>
   decrement no_faults 1000 ''21CS02'' ''Math'' swept_db = (AlreadyAbsent, swept_db)"
proof -
  have days: "\<forall>t\<in>set [1000, 2000, 3000]. isoDate t = ''1970-01-01''"
    by (simp add: isoDate_epoch_day)
  have none: "records_for ''21CS02'' ''Math'' ''1970-01-01'' example_db = []"
    by (simp add: records_for_def example_db_def)
  have found: "first_match (has_key ''21CS02'' ''Math'' (isoDate 1000)) (attendances swept_db) =
      Some (1, absent_record ''21CS02'' ''Math'' ''1970-01-01'')"
    by (simp add: isoDate_epoch_day swept_db_def has_key_def absent_record_def)
  have att: "attendances example_db = []"
    by (simp add: example_db_def)
  from decrement_idempotent [of "''21CS02''" "''Math''" "[1000, 2000, 3000]" "''1970-01-01''" example_db 1000]
    days none
  have a: "decrement_calls no_faults [1000, 2000, 3000] ''21CS02'' ''Math'' example_db =
     ([AbsentRecorded, AlreadyAbsent, AlreadyAbsent],
      example_db\<lparr>attendances := [absent_record ''21CS02'' ''Math'' ''1970-01-01'']\<rparr>)"
    by (simp add: att numeral_3_eq_3)
  from decrement_idempotent [of "''21CS02''" "''Math''" "[]" "''1970-01-01''" swept_db 1000] found
  have b: "decrement no_faults 1000 ''21CS02'' ''Math'' swept_db = (AlreadyAbsent, swept_db)"
    by (simp add: absent_record_def)
  from days none found a b show ?thesis by simp
qed

subsection \<open>The sweep\<close>

lemma sweep_subjects_pairs:
  "sweep_subjects F today st subs s = sweep_pairs F today (map (Pair st) subs) s"
  by (induction subs arbitrary: s)
     (auto simp: sweep_pair_def split: sum.splits option.splits)

lemma sweep_pairs_append:
  "sweep_pairs F today (ps @ qs) s =
     (case sweep_pairs F today ps s of
        (Some e, s') \<Rightarrow> (Some e, s')
      | (None, s') \<Rightarrow> sweep_pairs F today qs s')"
  by (induction ps arbitrary: s) (auto split: sum.splits)

lemma sweep_students_pairs:
  "sweep_students F today sts subs s = sweep_pairs F today (List.product sts subs) s"
  by (induction sts arbitrary: s)
     (auto simp: sweep_subjects_pairs sweep_pairs_append split: prod.splits option.splits)

lemma sweep_pair_ok:
  assumes "st_regNumber (fst p) \<noteq> []" "name (snd p) \<noteq> []" "today \<noteq> []"
  shows "sweep_pair no_faults today p s =
     Inr (if records_for (st_regNumber (fst p)) (name (snd p)) today s = []
          then s\<lparr>attendances := attendances s @ [absent_record (st_regNumber (fst p)) (name (snd p)) today]\<rparr>
          else s)"
proof (cases "first_match (has_key (st_regNumber (fst p)) (name (snd p)) today) (attendances s)")
  case None
  then have "records_for (st_regNumber (fst p)) (name (snd p)) today s = []"
    by (simp add: records_for_def first_match_None)
  with None assms show ?thesis
    by (simp add: sweep_pair_def Attendance_findOne_def Attendance_create_def no_faults_def
        valid_attendance_def absent_record_def)
next
  case (Some a)
  then have "records_for (st_regNumber (fst p)) (name (snd p)) today s \<noteq> []"
    by (simp add: records_for_def flip: first_match_None)
  with Some show ?thesis
    by (simp add: sweep_pair_def Attendance_findOne_def no_faults_def)
qed

lemma has_key_absent_iff:
  "has_key reg nm day (absent_record reg' nm' day') \<longleftrightarrow> reg' = reg \<and> nm' = nm \<and> day' = day"
  by (simp add: has_key_def absent_record_def)

lemma sweep_pairs_ok:
  assumes "\<forall>p\<in>set ps. st_regNumber (fst p) \<noteq> [] \<and> name (snd p) \<noteq> []" "today \<noteq> []"
  shows "\<exists>new. sweep_pairs no_faults today ps s = (None, s\<lparr>attendances := attendances s @ new\<rparr>) \<and>
           (\<forall>reg nm day. filter (has_key reg nm day) (attendances s @ new) =
              (if filter (has_key reg nm day) (attendances s) = [] \<and> day = today \<and> (reg, nm) \<in> pair_key ` set ps
               then [absent_record reg nm today]
               else filter (has_key reg nm day) (attendances s)))"
  using assms
proof (induction ps arbitrary: s)
  case Nil
  show ?case by (rule exI [of _ "[]"]) simp
next
  case (Cons p ps)
  let ?reg = "st_regNumber (fst p)" and ?nm = "name (snd p)"
  let ?a = "absent_record ?reg ?nm today"
  from Cons.prems have v: "?reg \<noteq> []" "?nm \<noteq> []"
    and vs: "\<forall>p\<in>set ps. st_regNumber (fst p) \<noteq> [] \<and> name (snd p) \<noteq> []" by auto
  show ?case
  proof (cases "records_for ?reg ?nm today s = []")
    case True
    let ?s1 = "s\<lparr>attendances := attendances s @ [?a]\<rparr>"
    from sweep_pair_ok [OF v Cons.prems(2)] True
    have step: "sweep_pair no_faults today p s = Inr ?s1" by simp
    from Cons.IH [OF vs Cons.prems(2), of ?s1]
    obtain new where new: "sweep_pairs no_faults today ps ?s1 = (None, ?s1\<lparr>attendances := attendances ?s1 @ new\<rparr>)"
      and keys: "\<forall>reg nm day. filter (has_key reg nm day) (attendances ?s1 @ new) =
              (if filter (has_key reg nm day) (attendances ?s1) = [] \<and> day = today \<and> (reg, nm) \<in> pair_key ` set ps
               then [absent_record reg nm today]
               else filter (has_key reg nm day) (attendances ?s1))"
      by blast
    have run: "sweep_pairs no_faults today (p # ps) s = (None, s\<lparr>attendances := attendances s @ (?a # new)\<rparr>)"
      using step new by simp
    have "filter (has_key reg nm day) (attendances s @ (?a # new)) =
              (if filter (has_key reg nm day) (attendances s) = [] \<and> day = today \<and> (reg, nm) \<in> pair_key ` set (p # ps)
               then [absent_record reg nm today]
               else filter (has_key reg nm day) (attendances s))" for reg nm day
    proof (cases "reg = ?reg \<and> nm = ?nm \<and> day = today")
      case k: True
      with True have e: "filter (has_key reg nm day) (attendances s) = []"
        by (simp add: records_for_def)
      from keys [rule_format, of reg nm day] k e
      have "filter (has_key reg nm day) (attendances s @ ?a # new) = [?a]"
        by (simp add: has_key_absent_iff)
      with k e show ?thesis by (simp add: pair_key_def)
    next
      case k: False
      then have n: "\<not> has_key reg nm day ?a" by (auto simp: has_key_absent_iff)
      from k have m: "day = today \<Longrightarrow> (reg, nm) \<in> pair_key ` set (p # ps) \<longleftrightarrow> (reg, nm) \<in> pair_key ` set ps"
        by (auto simp: pair_key_def)
      from keys [rule_format, of reg nm day] n m show ?thesis by auto
    qed
    with run show ?thesis by blast
  next
    case False
    from sweep_pair_ok [OF v Cons.prems(2)] False
    have step: "sweep_pair no_faults today p s = Inr s" by simp
    from Cons.IH [OF vs Cons.prems(2), of s]
    obtain new where new: "sweep_pairs no_faults today ps s = (None, s\<lparr>attendances := attendances s @ new\<rparr>)"
      and keys: "\<forall>reg nm day. filter (has_key reg nm day) (attendances s @ new) =
              (if filter (has_key reg nm day) (attendances s) = [] \<and> day = today \<and> (reg, nm) \<in> pair_key ` set ps
               then [absent_record reg nm today]
               else filter (has_key reg nm day) (attendances s))"
      by blast
    have run: "sweep_pairs no_faults today (p # ps) s = (None, s\<lparr>attendances := attendances s @ new\<rparr>)"
      using step new by simp
    have "filter (has_key reg nm day) (attendances s @ new) =
              (if filter (has_key reg nm day) (attendances s) = [] \<and> day = today \<and> (reg, nm) \<in> pair_key ` set (p # ps)
               then [absent_record reg nm today]
               else filter (has_key reg nm day) (attendances s))" for reg nm day
    proof (cases "reg = ?reg \<and> nm = ?nm \<and> day = today")
      case k: True
      with False have "filter (has_key reg nm day) (attendances s) \<noteq> []"
        by (simp add: records_for_def)
      with keys [rule_format, of reg nm day] show ?thesis by simp
    next
      case k: False
      then have m: "day = today \<Longrightarrow> (reg, nm) \<in> pair_key ` set (p # ps) \<longleftrightarrow> (reg, nm) \<in> pair_key ` set ps"
        by (auto simp: pair_key_def)
      from keys [rule_format, of reg nm day] m show ?thesis by auto
    qed
    with run show ?thesis by blast
  qed
qed

lemma daily_decrement_pairs:
  "\<not> F Student_find_op \<Longrightarrow> \<not> F Subject_find_op \<Longrightarrow>
   daily_decrement F t s = sweep_pairs F (isoDate t) (List.product (students s) (subjects s)) s"
  by (simp add: daily_decrement_def sweep_students_pairs)

text \<open>
  C6. When no store call fails and every student and subject carries the name its schema
  requires, the daily sweep completes, keeps every document that was there in its place,
  and only appends: a (student, subject) pair with no record for today gets exactly one
  record, absent with scoreChange -3; the records of a pair that had one, and of every
  other key, are what they were.
\<close>

theorem daily_sweep:
  assumes "\<forall>st\<in>set (students s). st_regNumber st \<noteq> []"
    and "\<forall>sb\<in>set (subjects s). name sb \<noteq> []"
    and "s' = snd (daily_decrement no_faults t s)"
  shows "fst (daily_decrement no_faults t s) = None \<and>
         (\<exists>new. s' = s\<lparr>attendances := attendances s @ new\<rparr>) \<and>
         (\<forall>st\<in>set (students s). \<forall>sb\<in>set (subjects s).
            records_for (st_regNumber st) (name sb) (isoDate t) s' =
              (if records_for (st_regNumber st) (name sb) (isoDate t) s = []
               then [absent_record (st_regNumber st) (name sb) (isoDate t)]
               else records_for (st_regNumber st) (name sb) (isoDate t) s)) \<and>
         (\<forall>reg nm day.
            (day \<noteq> isoDate t \<or> (reg, nm) \<notin> pair_key ` (set (students s) \<times> set (subjects s)))
              \<longrightarrow> records_for reg nm day s' = records_for reg nm day s) \<and>
         status (absent_record reg nm (isoDate t)) = Absent \<and>
         scoreChange (absent_record reg nm (isoDate t)) = - 3"
proof -
  let ?ps = "List.product (students s) (subjects s)"
  have v: "\<forall>p\<in>set ?ps. st_regNumber (fst p) \<noteq> [] \<and> name (snd p) \<noteq> []"
    using assms(1,2) by auto
  from sweep_pairs_ok [OF v isoDate_nonempty, of t s]
  obtain new where run: "sweep_pairs no_faults (isoDate t) ?ps s = (None, s\<lparr>attendances := attendances s @ new\<rparr>)"
    and keys: "\<forall>reg nm day. filter (has_key reg nm day) (attendances s @ new) =
              (if filter (has_key reg nm day) (attendances s) = [] \<and> day = isoDate t \<and> (reg, nm) \<in> pair_key ` set ?ps
               then [absent_record reg nm (isoDate t)]
               else filter (has_key reg nm day) (attendances s))"
    by blast
  have d: "daily_decrement no_faults t s = (None, s\<lparr>attendances := attendances s @ new\<rparr>)"
    using run by (simp add: daily_decrement_pairs no_faults_def)
  with assms(3) have s': "s' = s\<lparr>attendances := attendances s @ new\<rparr>" by simp
  have r: "records_for reg nm day s' =
              (if records_for reg nm day s = [] \<and> day = isoDate t \<and> (reg, nm) \<in> pair_key ` set ?ps
               then [absent_record reg nm (isoDate t)]
               else records_for reg nm day s)" for reg nm day
  proof -
    have "records_for reg nm day s' = filter (has_key reg nm day) (attendances s @ new)"
      unfolding records_for_def s' by simp
    also note keys [rule_format, of reg nm day]
    finally show ?thesis unfolding records_for_def by simp
  qed
  have a: "\<forall>st\<in>set (students s). \<forall>sb\<in>set (subjects s).
            records_for (st_regNumber st) (name sb) (isoDate t) s' =
              (if records_for (st_regNumber st) (name sb) (isoDate t) s = []
               then [absent_record (st_regNumber st) (name sb) (isoDate t)]
               else records_for (st_regNumber st) (name sb) (isoDate t) s)"
  proof (intro ballI)
    fix st sb
    assume "st \<in> set (students s)" "sb \<in> set (subjects s)"
    then have "(st_regNumber st, name sb) \<in> pair_key ` set ?ps"
      by (force simp: pair_key_def)
    with r [of "st_regNumber st" "name sb" "isoDate t"]
    show "records_for (st_regNumber st) (name sb) (isoDate t) s' =
              (if records_for (st_regNumber st) (name sb) (isoDate t) s = []
               then [absent_record (st_regNumber st) (name sb) (isoDate t)]
               else records_for (st_regNumber st) (name sb) (isoDate t) s)"
      by simp
  qed
  have b: "\<forall>reg nm day.
            (day \<noteq> isoDate t \<or> (reg, nm) \<notin> pair_key ` (set (students s) \<times> set (subjects s)))
              \<longrightarrow> records_for reg nm day s' = records_for reg nm day s"
    using r by auto
  from d s' a b show ?thesis by (auto simp: absent_record_def)
qed

text \<open>
  C7 as the code has it. The sweep visits the pairs in the order of the nested loops. When
  the pairs before some pair have been processed and a store call for that pair is
  rejected, the run ends there with that error: the state is the one the earlier pairs
  left, and no later pair is visited.
\<close>

theorem sweep_stops_at_first_failure:
  assumes "\<not> F Student_find_op" "\<not> F Subject_find_op"
    and "List.product (students s) (subjects s) = ps @ p # qs"
    and "sweep_pairs F (isoDate t) ps s = (None, s1)"
    and "sweep_pair F (isoDate t) p s1 = Inl e"
  shows "daily_decrement F t s = (Some e, s1)"
  using assms by (simp add: daily_decrement_pairs sweep_pairs_append)

theorem daily_sweep_witness:
  "students marked_db = [student1, student2] \<and> subjects marked_db = [math] \<and>
   st_regNumber student1 \<noteq> [] \<and> st_regNumber student2 \<noteq> [] \<and> name math \<noteq> [] \<and>
   isoDate 86340000 = ''1970-01-01'' \<and>
   records_for ''21CS01'' ''Math'' ''1970-01-01'' marked_db =
     [present_record ''21CS01'' ''Math'' ''1970-01-01''] \<and>
   records_for ''21CS02'' ''Math'' ''1970-01-01'' marked_db = [] \<and>
   fst (daily_decrement no_faults 86340000 marked_db) = None \<and>
   records_for ''21CS01'' ''Math'' ''1970-01-01'' (snd (daily_decrement no_faults 86340000 marked_db)) =
     [present_record ''21CS01'' ''Math'' ''1970-01-01''] \<and>
   records_for ''21CS02'' ''Math'' ''1970-01-01'' (snd (daily_decrement no_faults 86340000 marked_db)) =
     [absent_record ''21CS02'' ''Math'' ''1970-01-01'']"
proof -
  let ?s' = "snd (daily_decrement no_faults 86340000 marked_db)"
  have day: "isoDate 86340000 = ''1970-01-01''" by (simp add: isoDate_epoch_day)
  have st: "students marked_db = [student1, student2]" and sb: "subjects marked_db = [math]"
    by (simp_all add: marked_db_def example_db_def)
  have names: "st_regNumber student1 = ''21CS01''" "st_regNumber student2 = ''21CS02''"
    "name math = ''Math''"
    by (simp_all add: student1_def student2_def math_def)
  have r1: "records_for ''21CS01'' ''Math'' ''1970-01-01'' marked_db =
      [present_record ''21CS01'' ''Math'' ''1970-01-01'']"
    and r2: "records_for ''21CS02'' ''Math'' ''1970-01-01'' marked_db = []"
    by (simp_all add: records_for_def marked_db_def has_key_def present_record_def)
  have v: "\<forall>st\<in>set (students marked_db). st_regNumber st \<noteq> []"
    "\<forall>sb\<in>set (subjects marked_db). name sb \<noteq> []"
    by (simp_all add: st sb names)
  from daily_sweep [OF v refl, of 86340000]
  have "fst (daily_decrement no_faults 86340000 marked_db) = None"
    and "\<forall>st\<in>set (students marked_db). \<forall>sb\<in>set (subjects marked_db).
            records_for (st_regNumber st) (name sb) (isoDate 86340000) ?s' =
              (if records_for (st_regNumber st) (name sb) (isoDate 86340000) marked_db = []
               then [absent_record (st_regNumber st) (name sb) (isoDate 86340000)]
               else records_for (st_regNumber st) (name sb) (isoDate 86340000) marked_db)"
    by blast+
  then have "fst (daily_decrement no_faults 86340000 marked_db) = None"
    and "records_for ''21CS01'' ''Math'' ''1970-01-01'' ?s' = [present_record ''21CS01'' ''Math'' ''1970-01-01'']"
    and "records_for ''21CS02'' ''Math'' ''1970-01-01'' ?s' = [absent_record ''21CS02'' ''Math'' ''1970-01-01'']"
    by (simp_all add: st sb names day r1 r2)
  with st sb names day r1 r2 show ?thesis by simp
qed

lemma example_pairs:
  "List.product (students example_db) (subjects example_db) = [(student1, math), (student2, math)]"
  by (simp add: example_db_def)

text \<open>
  C7 as the claim states it fails: with the two example students, the subject Math and a
  store that rejects the write of the first student's absence only, the run ends with the
  error, and the second student, whose calls would all succeed, gets no record.
\<close>

theorem sweep_failure_counterexample:
  "List.product (students example_db) (subjects example_db) = [(student1, math), (student2, math)] \<and>
   isoDate 86340000 = ''1970-01-01'' \<and>
   create_fails_for_student1 (Attendance_create_op (absent_record ''21CS01'' ''Math'' ''1970-01-01'')) \<and>
   \<not> create_fails_for_student1 (Attendance_findOne_op ''21CS02'' ''Math'' ''1970-01-01'') \<and>
   \<not> create_fails_for_student1 (Attendance_create_op (absent_record ''21CS02'' ''Math'' ''1970-01-01'')) \<and>
   daily_decrement create_fails_for_student1 86340000 example_db = (Some StoreError, example_db) \<and>
   records_for ''21CS02'' ''Math'' ''1970-01-01''
     (snd (daily_decrement create_fails_for_student1 86340000 example_db)) = []"
proof -
  have day: "isoDate 86340000 = ''1970-01-01''" by (simp add: isoDate_epoch_day)
  have run: "daily_decrement create_fails_for_student1 86340000 example_db = (Some StoreError, example_db)"
    by (simp add: daily_decrement_def day create_fails_for_student1_def example_db_def
        Attendance_findOne_def Attendance_create_def valid_attendance_def absent_record_def
        student1_def student2_def math_def)
  have f: "create_fails_for_student1 (Attendance_create_op (absent_record ''21CS01'' ''Math'' ''1970-01-01''))"
    "\<not> create_fails_for_student1 (Attendance_findOne_op ''21CS02'' ''Math'' ''1970-01-01'')"
    "\<not> create_fails_for_student1 (Attendance_create_op (absent_record ''21CS02'' ''Math'' ''1970-01-01''))"
    by (simp_all add: create_fails_for_student1_def absent_record_def)
  from example_pairs day f run show ?thesis
    by (simp add: example_no_records)
qed

theorem sweep_stops_at_first_failure_witness:
  "\<not> create_fails_for_student1 Student_find_op \<and> \<not> create_fails_for_student1 Subject_find_op \<and>
   List.product (students example_db) (subjects example_db) = [] @ (student1, math) # [(student2, math)] \<and>
   sweep_pairs create_fails_for_student1 (isoDate 86340000) [] example_db = (None, example_db) \<and>
   sweep_pair create_fails_for_student1 (isoDate 86340000) (student1, math) example_db = Inl StoreError \<and>
   daily_decrement create_fails_for_student1 86340000 example_db = (Some StoreError, example_db)"
proof -
  have day: "isoDate 86340000 = ''1970-01-01''" by (simp add: isoDate_epoch_day)
  have a: "\<not> create_fails_for_student1 Student_find_op" "\<not> create_fails_for_student1 Subject_find_op"
    by (simp_all add: create_fails_for_student1_def)
  have b: "List.product (students example_db) (subjects example_db) = [] @ (student1, math) # [(student2, math)]"
    by (simp add: example_pairs)
  have c: "sweep_pairs create_fails_for_student1 (isoDate 86340000) [] example_db = (None, example_db)"
    by simp
  have d: "sweep_pair create_fails_for_student1 (isoDate 86340000) (student1, math) example_db = Inl StoreError"
    by (simp add: sweep_pair_def day create_fails_for_student1_def example_db_def
        Attendance_findOne_def Attendance_create_def valid_attendance_def absent_record_def
        student1_def math_def)
  from sweep_stops_at_first_failure [OF a b c d] a b c d show ?thesis by simp
qed

subsection \<open>History\<close>

lemma mset_insert_desc: "mset (insert_desc x xs) = add_mset x (mset xs)"
  by (induction xs) auto

lemma mset_sort_date_desc: "mset (sort_date_desc xs) = mset xs"
  by (induction xs) (auto simp: mset_insert_desc)

lemma set_insert_desc: "set (insert_desc x xs) = insert x (set xs)"
  by (induction xs) auto

lemma sorted_insert_desc:
  "sorted_wrt (\<lambda>a b. date b \<le> date a) xs \<Longrightarrow> sorted_wrt (\<lambda>a b. date b \<le> date a) (insert_desc x xs)"
  by (induction xs) (auto simp: set_insert_desc)

lemma sorted_sort_date_desc: "sorted_wrt (\<lambda>a b. date b \<le> date a) (sort_date_desc xs)"
  by (induction xs) (auto simp: sorted_insert_desc)

text \<open>
  C8. When the store answers the query, the history of a registration number is answered
  with one complete list: it holds exactly the attendance records of that registration
  number, each as often as the collection holds it, whatever their subject and date, and
  along the list the dates never increase.
\<close>

theorem history_sorted_complete:
  assumes "\<not> F (Attendance_find_op reg)"
  shows "\<exists>records. history F reg s = (ReplyRecords 200 records, s) \<and>
           mset records = filter_mset (\<lambda>r. regNumber r = reg) (mset (attendances s)) \<and>
           sorted_wrt (\<lambda>a b. date b \<le> date a) records"
  using assms
  by (simp add: history_def Attendance_find_sorted_def mset_sort_date_desc sorted_sort_date_desc)

lemma date_order_examples:
  "''1970-01-01'' \<le> ''1970-01-02''" "\<not> ''1970-01-02'' \<le> ''1970-01-01''"
  "\<not> ''1970-01-03'' \<le> ''1970-01-02''" "''1970-01-02'' \<le> ''1970-01-03''"
  "\<not> ''1970-01-03'' \<le> ''1970-01-01''" "''1970-01-01'' \<le> ''1970-01-03''"
  by (simp_all add: less_eq_char_def)

theorem history_sorted_complete_witness:
  "\<not> no_faults (Attendance_find_op ''21CS01'') \<and>
   (\<exists>records. history no_faults ''21CS01'' history_db = (ReplyRecords 200 records, history_db) \<and>
      mset records = filter_mset (\<lambda>r. regNumber r = ''21CS01'') (mset (attendances history_db)) \<and>
      sorted_wrt (\<lambda>a b. date b \<le> date a) records) \<and>
   history no_faults ''21CS01'' history_db =
     (ReplyRecords 200
        [present_record ''21CS01'' ''Physics'' ''1970-01-03'',
         present_record ''21CS01'' ''Math'' ''1970-01-02'',
         absent_record ''21CS01'' ''Math'' ''1970-01-01''], history_db)"
proof -
  have f: "\<not> no_faults (Attendance_find_op ''21CS01'')" by (simp add: no_faults_def)
  have e: "history no_faults ''21CS01'' history_db =
     (ReplyRecords 200
        [present_record ''21CS01'' ''Physics'' ''1970-01-03'',
         present_record ''21CS01'' ''Math'' ''1970-01-02'',
         absent_record ''21CS01'' ''Math'' ''1970-01-01''], history_db)"
    by (simp add: history_def Attendance_find_sorted_def no_faults_def history_db_def
        present_record_def absent_record_def date_order_examples)
  from history_sorted_complete [of no_faults "''21CS01''" history_db] f e show ?thesis by blast
qed

subsection \<open>Teacher sessions\<close>

lemma authenticate_Inr_iff:
  "authenticate F verify h s = Inr (tid, teacher, token) \<longleftrightarrow>
     \<not> falsy h \<and> startsWith (field_text h) ''Bearer '' \<and> token = bearer_token (field_text h) \<and>
     verify token = Some tid \<and> \<not> F (Teacher_findById_op tid) \<and>
     teachers s tid = Some teacher \<and> token \<in> set (tokens teacher)"
  by (auto simp: authenticate_def Let_def split: option.splits)

lemma logout_authenticated:
  assumes "authenticate F verify h s = Inr (tid, teacher, token)" "\<not> F (Teacher_save_op tid)"
  shows "logout F verify h s =
     (Reply 200 ''Logout successful'',
      s\<lparr>teachers := (teachers s)(tid \<mapsto> teacher\<lparr>tokens := filter (\<lambda>x. x \<noteq> token) (tokens teacher)\<rparr>)\<rparr>)"
  using assms by (simp add: logout_def Let_def)

text \<open>
  C9. A logout that authenticates and whose save the store accepts removes the presented
  token, and nothing else, from that teacher's tokens; every other teacher is untouched.
  Afterwards the presented token is refused, and every request that authenticated before
  with a different token still authenticates, as the same teacher and with that token.
\<close>

theorem logout_revokes_only_presented:
  assumes "authenticate F verify h s = Inr (tid, teacher, token)"
    and "\<not> F (Teacher_save_op tid)"
    and "s' = snd (logout F verify h s)"
  shows "logout F verify h s = (Reply 200 ''Logout successful'', s') \<and>
         s' = s\<lparr>teachers := (teachers s)(tid \<mapsto> teacher\<lparr>tokens := filter (\<lambda>x. x \<noteq> token) (tokens teacher)\<rparr>)\<rparr> \<and>
         (\<exists>teacher'. teachers s' tid = Some teacher' \<and>
            set (tokens teacher') = set (tokens teacher) - {token}) \<and>
         (\<forall>tid'. tid' \<noteq> tid \<longrightarrow> teachers s' tid' = teachers s tid') \<and>
         authenticate F verify h s' = Inl (Reply 401 ''Invalid token'') \<and>
         (\<forall>h' tid' teacher2 token'.
            authenticate F verify h' s = Inr (tid', teacher2, token') \<and> token' \<noteq> token \<longrightarrow>
            (\<exists>teacher3. authenticate F verify h' s' = Inr (tid', teacher3, token')))"
proof -
  let ?t' = "teacher\<lparr>tokens := filter (\<lambda>x. x \<noteq> token) (tokens teacher)\<rparr>"
  let ?u = "s\<lparr>teachers := (teachers s)(tid \<mapsto> ?t')\<rparr>"
  from logout_authenticated [OF assms(1,2)]
  have out: "logout F verify h s = (Reply 200 ''Logout successful'', ?u)" .
  with assms(3) have s': "s' = ?u" by simp
  from assms(1) have a: "\<not> falsy h" "startsWith (field_text h) ''Bearer ''"
    "token = bearer_token (field_text h)" "verify token = Some tid"
    "\<not> F (Teacher_findById_op tid)" "teachers s tid = Some teacher" "token \<in> set (tokens teacher)"
    using authenticate_Inr_iff [THEN iffD1] by blast+
  have toks: "set (tokens ?t') = set (tokens teacher) - {token}" by auto
  have refused: "authenticate F verify h ?u = Inl (Reply 401 ''Invalid token'')"
    using a by (simp add: authenticate_def Let_def)
  have others: "\<exists>teacher3. authenticate F verify h' ?u = Inr (tid', teacher3, token')"
    if o: "authenticate F verify h' s = Inr (tid', teacher2, token')" and ne: "token' \<noteq> token"
    for h' tid' teacher2 token'
  proof -
    from o have b: "\<not> falsy h'" "startsWith (field_text h') ''Bearer ''"
      "token' = bearer_token (field_text h')" "verify token' = Some tid'"
      "\<not> F (Teacher_findById_op tid')" "teachers s tid' = Some teacher2" "token' \<in> set (tokens teacher2)"
      using authenticate_Inr_iff [THEN iffD1] by blast+
    show ?thesis
    proof (cases "tid' = tid")
      case True
      with a(6) b(6) have "teacher2 = teacher" by simp
      with b(7) ne have "token' \<in> set (tokens ?t')" by simp
      with b True have "authenticate F verify h' ?u = Inr (tid', ?t', token')"
        by (simp add: authenticate_Inr_iff)
      then show ?thesis ..
    next
      case False
      with b have "authenticate F verify h' ?u = Inr (tid', teacher2, token')"
        by (simp add: authenticate_Inr_iff)
      then show ?thesis ..
    qed
  qed
  from out s' toks refused others show ?thesis by auto
qed

lemma example_authenticate:
  "authenticate no_faults example_verify (Some ''Bearer tok.phone'') example_db =
     Inr (7, example_teacher, ''tok.phone'')"
  "authenticate no_faults example_verify (Some ''Bearer tok.laptop'') example_db =
     Inr (7, example_teacher, ''tok.laptop'')"
  by (simp_all add: authenticate_Inr_iff falsy_def field_text_def startsWith_def bearer_token_def
      example_verify_def no_faults_def example_db_def example_teacher_def)

theorem logout_revokes_only_presented_witness:
  "authenticate no_faults example_verify (Some ''Bearer tok.phone'') example_db =
     Inr (7, example_teacher, ''tok.phone'') \<and>
   authenticate no_faults example_verify (Some ''Bearer tok.laptop'') example_db =
     Inr (7, example_teacher, ''tok.laptop'') \<and>
   \<not> no_faults (Teacher_save_op 7) \<and>
   fst (logout no_faults example_verify (Some ''Bearer tok.phone'') example_db) =
     Reply 200 ''Logout successful'' \<and>
   authenticate no_faults example_verify (Some ''Bearer tok.phone'')
     (snd (logout no_faults example_verify (Some ''Bearer tok.phone'') example_db)) =
     Inl (Reply 401 ''Invalid token'') \<and>
   (\<exists>teacher3. authenticate no_faults example_verify (Some ''Bearer tok.laptop'')
     (snd (logout no_faults example_verify (Some ''Bearer tok.phone'') example_db)) =
     Inr (7, teacher3, ''tok.laptop''))"
proof -
  let ?s' = "snd (logout no_faults example_verify (Some ''Bearer tok.phone'') example_db)"
  have f: "\<not> no_faults (Teacher_save_op 7)" by (simp add: no_faults_def)
  note t = logout_revokes_only_presented [OF example_authenticate(1) f refl]
  from t have a: "logout no_faults example_verify (Some ''Bearer tok.phone'') example_db =
      (Reply 200 ''Logout successful'', ?s')" by blast
  from t have b: "authenticate no_faults example_verify (Some ''Bearer tok.phone'') ?s' =
      Inl (Reply 401 ''Invalid token'')" by blast
  from t have "\<forall>h' tid' teacher2 token'.
      authenticate no_faults example_verify h' example_db = Inr (tid', teacher2, token') \<and>
      token' \<noteq> ''tok.phone'' \<longrightarrow>
      (\<exists>teacher3. authenticate no_faults example_verify h' ?s' = Inr (tid', teacher3, token'))"
    by blast
  from this [rule_format, of "Some ''Bearer tok.laptop''" 7 example_teacher "''tok.laptop''"]
    example_authenticate(2)
  have c: "\<exists>teacher3. authenticate no_faults example_verify (Some ''Bearer tok.laptop'') ?s' =
      Inr (7, teacher3, ''tok.laptop'')" by simp
  from a have "fst (logout no_faults example_verify (Some ''Bearer tok.phone'') example_db) =
      Reply 200 ''Logout successful''" by (metis fst_conv)
  with example_authenticate f b c show ?thesis by blast
qed

subsection \<open>The key invariant is kept by every handler\<close>

lemma has_key_key_of: "has_key reg subj day r \<longleftrightarrow> key_of r = (reg, subj, day)"
  by (auto simp: has_key_def key_of_def)

lemma distinct_filter_le_1: "distinct (map f xs) \<Longrightarrow> length (filter (\<lambda>x. f x = k) xs) \<le> 1"
  by (induction xs) (auto simp: filter_empty_conv image_iff)

lemma one_per_key_records: "one_per_key s \<Longrightarrow> length (records_for reg subj day s) \<le> 1"
proof -
  have "has_key reg subj day = (\<lambda>x. key_of x = (reg, subj, day))"
    by (rule ext) (rule has_key_key_of)
  then show "one_per_key s \<Longrightarrow> length (records_for reg subj day s) \<le> 1"
    using distinct_filter_le_1 [of key_of "attendances s" "(reg, subj, day)"]
    by (simp add: one_per_key_def records_for_def)
qed

lemma one_per_key_append:
  assumes "one_per_key s" "first_match (has_key reg subj day) (attendances s) = None"
    "has_key reg subj day r"
  shows "one_per_key (s\<lparr>attendances := attendances s @ [r]\<rparr>)"
proof -
  from assms(2) have "\<forall>x\<in>set (attendances s). key_of x \<noteq> (reg, subj, day)"
    by (simp add: first_match_None filter_empty_conv has_key_key_of)
  with assms(1,3) show ?thesis
    by (auto simp: one_per_key_def has_key_key_of)
qed

lemma one_per_key_update:
  assumes "one_per_key s" "first_match (has_key reg subj day) (attendances s) = Some (i, r0)"
    "has_key reg subj day r"
  shows "one_per_key (s\<lparr>attendances := (attendances s)[i := r]\<rparr>)"
proof -
  from first_match_Some [OF assms(2)]
  have i: "i < length (attendances s)" "attendances s ! i = r0" "has_key reg subj day r0"
    by simp_all
  with assms(3) have "key_of r = key_of (attendances s ! i)"
    by (simp add: has_key_key_of)
  then have "map key_of ((attendances s)[i := r]) = map key_of (attendances s)"
    using i(1) by (simp add: map_update list_update_same_conv)
  with assms(1) show ?thesis by (simp add: one_per_key_def)
qed

lemma one_per_key_mark_try:
  assumes "one_per_key s"
  shows "one_per_key (snd (mark_try F t1 t2 reg subj q s))"
proof -
  have k: "has_key reg subj (isoDate t2) (present_record reg subj (isoDate t2))"
    by (rule has_key_present)
  have u: "has_key reg subj (isoDate t2) (r\<lparr>status := Present, scoreChange := 1\<rparr>)"
    if "first_match (has_key reg subj (isoDate t2)) (attendances s) = Some (i, r)" for i r
    using first_match_Some [OF that] by (simp add: has_key_def)
  show ?thesis
    using assms k u
    by (auto simp: mark_try_def QrSession_findOne_def Attendance_findOne_def Attendance_save_def
        Let_def one_per_key_append one_per_key_update
        split: option.splits)
qed

lemma one_per_key_mark: "one_per_key s \<Longrightarrow> one_per_key (snd (mark F t1 t2 body s))"
  using one_per_key_mark_try [of s F t1 t2]
  by (auto simp: mark_def split: prod.splits sum.splits) (metis snd_conv)+

lemma one_per_key_decrement: "one_per_key s \<Longrightarrow> one_per_key (snd (decrement F t reg subj s))"
  by (auto simp: decrement_def Attendance_findOne_def Attendance_create_def Let_def
      one_per_key_append has_key_absent split: option.splits)

lemma one_per_key_sweep_pair:
  "one_per_key s \<Longrightarrow> sweep_pair F today p s = Inr s' \<Longrightarrow> one_per_key s'"
  by (auto simp: sweep_pair_def Attendance_findOne_def Attendance_create_def
      one_per_key_append has_key_absent split: option.splits if_splits)

lemma one_per_key_sweep_pairs:
  "one_per_key s \<Longrightarrow> one_per_key (snd (sweep_pairs F today ps s))"
  by (induction ps arbitrary: s) (auto simp: one_per_key_sweep_pair split: sum.splits)

lemma one_per_key_daily_decrement:
  "one_per_key s \<Longrightarrow> one_per_key (snd (daily_decrement F t s))"
  by (simp add: daily_decrement_def sweep_students_pairs one_per_key_sweep_pairs)

lemma one_per_key_empty: "attendances s = [] \<Longrightarrow> one_per_key s"
  by (simp add: one_per_key_def)

end
